theory Spec2Isabelle
  imports Main
begin

section \<open>Runes, positions and tokens\<close>

text \<open>
  The scanner works on \<^verbatim>\<open>[]rune\<close>. A rune is Go's \<^verbatim>\<open>int32\<close> code point; it is
  modelled as an \<open>int\<close>, and a rune literal \<^verbatim>\<open>'x'\<close> of the source is written
  \<open>rn CHR ''x''\<close>. A Go string is modelled by the list of runes it decodes to, so
  \<^verbatim>\<open>string(runes)\<close> and \<^verbatim>\<open>[]rune(text)\<close> are the identity, and a position counts
  runes, as the scanner's own indices do.
\<close>

type_synonym rune = int

abbreviation rn :: "char \<Rightarrow> rune" where
  "rn c \<equiv> of_char c"

abbreviation runes :: "string \<Rightarrow> rune list" where
  "runes s \<equiv> map of_char s"

record Position =
  Line :: int
  Column :: int
  Offset :: int
  IndentNum :: int
  IndentLevel :: int

text \<open>
  Modelled from the spec: the token package is not among the sources. Section 6 of the
  specification lists the token kinds; a token carries a kind, a normalised value, the
  origin text and a position. \<open>ScalarType\<close> stands for the kind that \<^verbatim>\<open>token.New\<close>
  picks for a plain scalar (Null, Bool, one of the integer kinds, Float, Infinity, Nan or
  String): that classification is done inside the token package.
\<close>

datatype TokenType =
    StringType | SingleQuoteType | DoubleQuoteType | LiteralType | FoldedType
  | MergeKeyType | TagType | AnchorType | AliasType | DirectiveType | CommentType
  | DocumentHeaderType | DocumentEndType | MappingStartType | MappingEndType
  | MappingValueType | MappingKeyType | SequenceStartType | SequenceEndType
  | SequenceEntryType | CollectEntryType | TemplateType | ScalarType

record Token =
  Type :: TokenType
  Value :: "rune list"
  Origin :: "rune list"
  Position :: "Position option"

text \<open>
  Modelled from the spec: the constructors of the token package. A constructor called
  with a value and an origin stores both; one called with an origin only has the
  indicator as its value; one called with a position only has the indicator as value
  and as origin (the exact source text that produced the token).
\<close>

definition mkToken :: "TokenType \<Rightarrow> rune list \<Rightarrow> rune list \<Rightarrow> Position option \<Rightarrow> Token" where
  "mkToken t v org p = \<lparr>Type = t, Value = v, Origin = org, Position = p\<rparr>"

definition token_New :: "rune list \<Rightarrow> rune list \<Rightarrow> Position option \<Rightarrow> Token" where
  "token_New v org p = mkToken ScalarType v org p"

definition token_String :: "rune list \<Rightarrow> rune list \<Rightarrow> Position option \<Rightarrow> Token" where
  "token_String v org p = mkToken StringType v org p"

definition token_SingleQuote :: "rune list \<Rightarrow> rune list \<Rightarrow> Position \<Rightarrow> Token" where
  "token_SingleQuote v org p = mkToken SingleQuoteType v org (Some p)"

definition token_DoubleQuote :: "rune list \<Rightarrow> rune list \<Rightarrow> Position \<Rightarrow> Token" where
  "token_DoubleQuote v org p = mkToken DoubleQuoteType v org (Some p)"

definition token_Template :: "rune list \<Rightarrow> rune list \<Rightarrow> Position \<Rightarrow> Token" where
  "token_Template v org p = mkToken TemplateType v org (Some p)"

definition token_Tag :: "rune list \<Rightarrow> rune list \<Rightarrow> Position \<Rightarrow> Token" where
  "token_Tag v org p = mkToken TagType v org (Some p)"

definition token_Comment :: "rune list \<Rightarrow> rune list \<Rightarrow> Position \<Rightarrow> Token" where
  "token_Comment v org p = mkToken CommentType v org (Some p)"

definition token_Literal :: "rune list \<Rightarrow> rune list \<Rightarrow> Position \<Rightarrow> Token" where
  "token_Literal v org p = mkToken LiteralType v org (Some p)"

definition token_Folded :: "rune list \<Rightarrow> rune list \<Rightarrow> Position \<Rightarrow> Token" where
  "token_Folded v org p = mkToken FoldedType v org (Some p)"

definition token_MappingStart :: "rune list \<Rightarrow> Position \<Rightarrow> Token" where
  "token_MappingStart org p = mkToken MappingStartType (runes ''{'') org (Some p)"

definition token_MappingEnd :: "rune list \<Rightarrow> Position \<Rightarrow> Token" where
  "token_MappingEnd org p = mkToken MappingEndType (runes ''}'') org (Some p)"

definition token_SequenceStart :: "rune list \<Rightarrow> Position \<Rightarrow> Token" where
  "token_SequenceStart org p = mkToken SequenceStartType (runes ''['') org (Some p)"

definition token_SequenceEnd :: "rune list \<Rightarrow> Position \<Rightarrow> Token" where
  "token_SequenceEnd org p = mkToken SequenceEndType (runes '']'') org (Some p)"

definition token_CollectEntry :: "rune list \<Rightarrow> Position \<Rightarrow> Token" where
  "token_CollectEntry org p = mkToken CollectEntryType (runes '','') org (Some p)"

definition token_SequenceEntry :: "rune list \<Rightarrow> Position \<Rightarrow> Token" where
  "token_SequenceEntry org p = mkToken SequenceEntryType (runes ''-'') org (Some p)"

definition token_MergeKey :: "rune list \<Rightarrow> Position \<Rightarrow> Token" where
  "token_MergeKey org p = mkToken MergeKeyType (runes ''<<'') org (Some p)"

definition token_Anchor :: "rune list \<Rightarrow> Position \<Rightarrow> Token" where
  "token_Anchor org p = mkToken AnchorType (runes ''&'') org (Some p)"

definition token_Alias :: "rune list \<Rightarrow> Position \<Rightarrow> Token" where
  "token_Alias org p = mkToken AliasType (runes ''*'') org (Some p)"

definition token_MappingValue :: "Position \<Rightarrow> Token" where
  "token_MappingValue p = mkToken MappingValueType (runes '':'') (runes '':'') (Some p)"

definition token_MappingKey :: "Position \<Rightarrow> Token" where
  "token_MappingKey p = mkToken MappingKeyType (runes ''?'') (runes ''?'') (Some p)"

definition token_Directive :: "Position \<Rightarrow> Token" where
  "token_Directive p = mkToken DirectiveType (runes ''%'') (runes ''%'') (Some p)"

definition token_DocumentHeader :: "Position \<Rightarrow> Token" where
  "token_DocumentHeader p = mkToken DocumentHeaderType (runes ''---'') (runes ''---'') (Some p)"

definition token_DocumentEnd :: "Position \<Rightarrow> Token" where
  "token_DocumentEnd p = mkToken DocumentEndType (runes ''...'') (runes ''...'') (Some p)"

section \<open>The scan context (scanner/context.go)\<close>

text \<open>
  Slices are lists: \<^verbatim>\<open>xs[:n]\<close> is \<open>take n xs\<close> and \<^verbatim>\<open>xs[a:b]\<close> is
  \<open>take (b - a) (drop a xs)\<close>. Indices and lengths are \<open>nat\<close>; columns, lines and
  the nesting counters, which the source decrements without a check, are \<open>int\<close>.
\<close>

record Context =
  idx :: nat
  csize :: nat
  notSpaceCharPos :: nat
  notSpaceOrgCharPos :: nat
  src :: "rune list"
  bufPos :: "Position option"
  buf :: "rune list"
  obuf :: "rune list"
  tokens :: "Token list"
  isRawFolded :: bool
  isLiteral :: bool
  isFolded :: bool
  isSingleLine :: bool
  literalOpt :: "rune list"

definition createContext :: Context where
  "createContext = \<lparr>idx = 0, csize = 0, notSpaceCharPos = 0, notSpaceOrgCharPos = 0,
     src = [], bufPos = None, buf = [], obuf = [], tokens = [],
     isRawFolded = False, isLiteral = False, isFolded = False, isSingleLine = True,
     literalOpt = []\<rparr>"

definition resetBuffer :: "Context \<Rightarrow> Context" where
  "resetBuffer c = c\<lparr>bufPos := None, buf := [], obuf := [],
     notSpaceCharPos := 0, notSpaceOrgCharPos := 0\<rparr>"

definition reset :: "rune list \<Rightarrow> Context \<Rightarrow> Context" where
  "reset text c =
     (resetBuffer (c\<lparr>idx := 0, csize := length text, src := text, tokens := []\<rparr>))
       \<lparr>isSingleLine := True\<rparr>"

text \<open>
  \<^verbatim>\<open>newContext\<close> takes a context from \<^verbatim>\<open>ctxPool\<close> and resets it. What the pool
  hands out is an argument of the model: \<open>createContext\<close> when the pool is empty, or
  a context that an earlier \<^verbatim>\<open>Scan\<close> released.
\<close>

definition newContext :: "Context \<Rightarrow> rune list \<Rightarrow> Context" where
  "newContext pooled text = reset text pooled"

definition isSaveIndentMode :: "Context \<Rightarrow> bool" where
  "isSaveIndentMode c = (isLiteral c \<or> isFolded c \<or> isRawFolded c)"

definition breakScalar_ctx :: "Context \<Rightarrow> Context" where
  "breakScalar_ctx c = c\<lparr>isLiteral := False, isRawFolded := False, isFolded := False,
     literalOpt := []\<rparr>"

definition addToken :: "Token option \<Rightarrow> Context \<Rightarrow> Context" where
  "addToken tk c = (case tk of None \<Rightarrow> c | Some t \<Rightarrow> c\<lparr>tokens := tokens c @ [t]\<rparr>)"

definition addBuf :: "rune \<Rightarrow> Position \<Rightarrow> Context \<Rightarrow> Context" where
  "addBuf r p c =
     (if buf c = [] \<and> r = rn CHR '' '' then c
      else
        let c1 = (if buf c = [] then c\<lparr>bufPos := Some p\<rparr> else c);
            c2 = c1\<lparr>buf := buf c1 @ [r]\<rparr>
        in if r \<noteq> rn CHR '' '' \<and> r \<noteq> rn (CHR 0x09)
           then c2\<lparr>notSpaceCharPos := length (buf c2)\<rparr> else c2)"

definition addOriginBuf :: "rune \<Rightarrow> Context \<Rightarrow> Context" where
  "addOriginBuf r c =
     (let c1 = c\<lparr>obuf := obuf c @ [r]\<rparr>
      in if r \<noteq> rn CHR '' '' \<and> r \<noteq> rn (CHR 0x09)
         then c1\<lparr>notSpaceOrgCharPos := length (obuf c1)\<rparr> else c1)"

definition appendOriginBuf :: "rune list \<Rightarrow> Context \<Rightarrow> Context" where
  "appendOriginBuf rs c = foldl (\<lambda>c r. addOriginBuf r c) c rs"

definition isBlockScalar :: "Context \<Rightarrow> bool" where
  "isBlockScalar c = (isLiteral c \<or> isFolded c \<or> isRawFolded c)"

definition isEOS :: "Context \<Rightarrow> bool" where
  "isEOS c = (int (length (src c)) - 1 \<le> int (idx c))"

definition isNextEOS :: "Context \<Rightarrow> bool" where
  "isNextEOS c = (int (length (src c)) - 1 \<le> int (idx c) + 1)"

definition next_c :: "Context \<Rightarrow> bool" where
  "next_c c = (idx c < csize c)"

definition source_c :: "Context \<Rightarrow> nat \<Rightarrow> nat \<Rightarrow> rune list" where
  "source_c c s e = take (e - s) (drop s (src c))"

definition previousChar :: "Context \<Rightarrow> rune" where
  "previousChar c = (if idx c > 0 then src c ! (idx c - 1) else 0)"

definition currentChar :: "Context \<Rightarrow> rune" where
  "currentChar c = src c ! idx c"

definition nextChar :: "Context \<Rightarrow> rune" where
  "nextChar c = (if csize c > idx c + 1 then src c ! (idx c + 1) else 0)"

definition repeatNum :: "Context \<Rightarrow> rune \<Rightarrow> nat" where
  "repeatNum c r = length (takeWhile (\<lambda>x. x = r) (take (csize c - idx c) (drop (idx c) (src c))))"

definition progress :: "nat \<Rightarrow> Context \<Rightarrow> Context" where
  "progress num c = c\<lparr>idx := idx c + num\<rparr>"

definition nextPos :: "Context \<Rightarrow> nat" where
  "nextPos c = idx c + 1"

definition bufferedSrc :: "Context \<Rightarrow> rune list" where
  "bufferedSrc c =
     (let s = take (notSpaceCharPos c) (buf c)
      in if length s > 0 \<and> last s = rn CHR ''\<newline>'' \<and> isBlockScalar c
            \<and> literalOpt c = runes ''-''
         then butlast s else s)"

definition existsBuffer :: "Context \<Rightarrow> bool" where
  "existsBuffer c = (length (bufferedSrc c) \<noteq> 0)"

definition removeRightSpaceFromBuf :: "Context \<Rightarrow> nat \<times> Context" where
  "removeRightSpaceFromBuf c =
     (let trimmedBuf = take (notSpaceOrgCharPos c) (obuf c);
          buflen = length trimmedBuf;
          diff = length (obuf c) - buflen
      in if diff > 0
         then (diff, (c\<lparr>obuf := take buflen (obuf c)\<rparr>)
                        \<lparr>buf := bufferedSrc (c\<lparr>obuf := take buflen (obuf c)\<rparr>)\<rparr>)
         else (diff, c))"

definition bufferedToken :: "Context \<Rightarrow> Token option \<times> Context" where
  "bufferedToken c =
     (if idx c = 0 then (None, c)
      else
        let source = bufferedSrc c
        in if length source = 0 then (None, c)
           else if isBlockScalar c
             then (Some (token_String source (obuf c) (bufPos c)), resetBuffer c)
             else (Some (token_New source (obuf c) (bufPos c)), resetBuffer c))"

definition addBufferedTokenIfExists :: "Context \<Rightarrow> Context" where
  "addBufferedTokenIfExists c = (case bufferedToken c of (tk, c') \<Rightarrow> addToken tk c')"

section \<open>The scanner (scanner/scanner.go)\<close>

datatype IndentState = IndentStateEqual | IndentStateUp | IndentStateDown | IndentStateKeep

record Scanner =
  source :: "rune list"
  sourcePos :: nat
  line :: int
  column :: int
  offset :: int
  prevIndentLevel :: int
  prevIndentNum :: int
  prevIndentColumn :: int
  docStartColumn :: int
  indentLevel :: int
  indentNum :: int
  isFirstCharAtLine :: bool
  isAnchor :: bool
  isTemplate :: bool
  startedFlowSequenceNum :: int
  startedFlowMapNum :: int
  indentState :: IndentState

text \<open>The zero value of the struct: what \<^verbatim>\<open>var s Scanner\<close> declares.\<close>

definition zeroScanner :: Scanner where
  "zeroScanner = \<lparr>source = [], sourcePos = 0, line = 0, column = 0, offset = 0,
     prevIndentLevel = 0, prevIndentNum = 0, prevIndentColumn = 0, docStartColumn = 0,
     indentLevel = 0, indentNum = 0, isFirstCharAtLine = False, isAnchor = False,
     isTemplate = False, startedFlowSequenceNum = 0, startedFlowMapNum = 0,
     indentState = IndentStateEqual\<rparr>"

definition pos :: "Scanner \<Rightarrow> Position" where
  "pos s = \<lparr>Line = line s, Column = column s, Offset = offset s,
     IndentNum = indentNum s, IndentLevel = indentLevel s\<rparr>"

definition progressColumn :: "nat \<Rightarrow> Scanner \<times> Context \<Rightarrow> Scanner \<times> Context" where
  "progressColumn num sc = (case sc of (s, ctx) \<Rightarrow>
     (s\<lparr>column := column s + int num, offset := offset s + int num\<rparr>, progress num ctx))"

definition progressLine :: "Scanner \<times> Context \<Rightarrow> Scanner \<times> Context" where
  "progressLine sc = (case sc of (s, ctx) \<Rightarrow>
     (s\<lparr>column := 1, line := line s + 1, offset := offset s + 1, indentNum := 0,
        isFirstCharAtLine := True, isAnchor := False\<rparr>, progress 1 ctx))"

definition isChangedToIndentStateDown :: "Scanner \<Rightarrow> bool" where
  "isChangedToIndentStateDown s = (indentState s = IndentStateDown)"

definition isChangedToIndentStateUp :: "Scanner \<Rightarrow> bool" where
  "isChangedToIndentStateUp s = (indentState s = IndentStateUp)"

definition isChangedToIndentStateEqual :: "Scanner \<Rightarrow> bool" where
  "isChangedToIndentStateEqual s = (indentState s = IndentStateEqual)"

definition isNeededKeepPreviousIndentNum :: "Scanner \<Rightarrow> Context \<Rightarrow> rune \<Rightarrow> bool" where
  "isNeededKeepPreviousIndentNum s ctx c =
     (if \<not> isChangedToIndentStateUp s then False
      else if isBlockScalar ctx then True
      else if c = rn CHR ''-'' \<and> existsBuffer ctx then True
      else False)"

definition isNewLineChar :: "rune \<Rightarrow> bool" where
  "isNewLineChar c = (if c = rn CHR ''\<newline>'' then True else if c = rn (CHR 0x0D) then True else False)"

fun newLineCount :: "rune list \<Rightarrow> nat" where
  "newLineCount [] = 0"
| "newLineCount [c] = (if c = rn (CHR 0x0D) \<or> c = rn CHR ''\<newline>'' then 1 else 0)"
| "newLineCount (c # d # cs) =
     (if c = rn (CHR 0x0D)
      then (if d = rn CHR ''\<newline>'' then 1 + newLineCount cs else 1 + newLineCount (d # cs))
      else if c = rn CHR ''\<newline>'' then 1 + newLineCount (d # cs)
      else newLineCount (d # cs))"

definition updateIndent :: "Scanner \<Rightarrow> Context \<Rightarrow> rune \<Rightarrow> Scanner" where
  "updateIndent s ctx c =
     (if isFirstCharAtLine s \<and> isNewLineChar c \<and> isBlockScalar ctx then s
      else if isFirstCharAtLine s \<and> c = rn CHR '' '' then s\<lparr>indentNum := indentNum s + 1\<rparr>
      else if \<not> isFirstCharAtLine s then s\<lparr>indentState := IndentStateKeep\<rparr>
      else
        let s1 = (if prevIndentNum s < indentNum s
                  then s\<lparr>indentLevel := prevIndentLevel s + 1, indentState := IndentStateUp\<rparr>
                  else if prevIndentNum s = indentNum s
                  then s\<lparr>indentLevel := prevIndentLevel s, indentState := IndentStateEqual\<rparr>
                  else if prevIndentLevel s > 0
                  then s\<lparr>indentState := IndentStateDown, indentLevel := prevIndentLevel s - 1\<rparr>
                  else s\<lparr>indentState := IndentStateDown\<rparr>);
            s2 = (if prevIndentColumn s1 > 0
                  then (if prevIndentColumn s1 < column s1 then s1\<lparr>indentState := IndentStateUp\<rparr>
                        else if prevIndentColumn s1 = column s1
                        then s1\<lparr>indentState := IndentStateEqual\<rparr>
                        else s1\<lparr>indentState := IndentStateDown\<rparr>)
                  else s1);
            s3 = s2\<lparr>isFirstCharAtLine := False\<rparr>
        in if isNeededKeepPreviousIndentNum s3 ctx c then s3
           else s3\<lparr>prevIndentNum := indentNum s3, prevIndentColumn := 0,
                   prevIndentLevel := indentLevel s3\<rparr>)"

definition breakScalar :: "Scanner \<times> Context \<Rightarrow> Scanner \<times> Context" where
  "breakScalar sc = (case sc of (s, ctx) \<Rightarrow> (s\<lparr>docStartColumn := 0\<rparr>, breakScalar_ctx ctx))"

subsection \<open>Field facts used by the termination proofs\<close>

lemma addOriginBuf_fields [simp]:
  "idx (addOriginBuf r c) = idx c" "src (addOriginBuf r c) = src c"
  "csize (addOriginBuf r c) = csize c"
  by (simp_all add: addOriginBuf_def Let_def)

lemma appendOriginBuf_fields [simp]:
  "idx (appendOriginBuf rs c) = idx c" "src (appendOriginBuf rs c) = src c"
  "csize (appendOriginBuf rs c) = csize c"
  unfolding appendOriginBuf_def by (induction rs arbitrary: c) simp_all

lemma progress_fields [simp]:
  "idx (progress n c) = idx c + n" "src (progress n c) = src c"
  "csize (progress n c) = csize c"
  by (simp_all add: progress_def)

subsection \<open>Quoted strings\<close>

function scanSingleQuote_loop ::
  "Scanner \<Rightarrow> Context \<Rightarrow> nat \<Rightarrow> bool \<Rightarrow> rune list \<Rightarrow> (Token option \<times> nat) \<times> Context" where
  "scanSingleQuote_loop s ctx len isFirstLineChar val =
     (if idx ctx < length (src ctx) then
        let c = src ctx ! idx ctx;
            ctx1 = addOriginBuf c ctx
        in if isNewLineChar c
           then scanSingleQuote_loop s (progress 1 ctx1) (len + 1) True (val @ [rn CHR '' ''])
           else if c = rn CHR '' '' \<and> isFirstLineChar
           then scanSingleQuote_loop s (progress 1 ctx1) (len + 1) isFirstLineChar val
           else if c = rn (CHR 0x27)
           then (let isEscaped = (idx ctx1 + 1 < length (src ctx1)
                                  \<and> src ctx1 ! (idx ctx1 + 1) = rn (CHR 0x27))
                 in if \<not> isEscaped
                    then ((Some (token_SingleQuote val (obuf ctx1) (pos s)), len), ctx1)
                    else scanSingleQuote_loop s (progress 1 (progress 1 (addOriginBuf c ctx1)))
                           (len + 1 + 1) isFirstLineChar (val @ [c]))
           else scanSingleQuote_loop s (progress 1 ctx1) (len + 1) False (val @ [c])
      else ((None, 0), ctx))"
  by pat_completeness auto
termination
  by (relation "measure (\<lambda>(s, ctx, len, f, v). length (src ctx) - idx ctx)") auto

declare scanSingleQuote_loop.simps [simp del]

definition scanSingleQuote :: "Scanner \<Rightarrow> Context \<Rightarrow> (Token option \<times> nat) \<times> Context" where
  "scanSingleQuote s ctx =
     scanSingleQuote_loop s (progress 1 (addOriginBuf (rn (CHR 0x27)) ctx)) 1 False []"

definition hexToInt :: "rune \<Rightarrow> int" where
  "hexToInt b =
     (if b \<ge> rn CHR ''A'' \<and> b \<le> rn CHR ''F'' then b - rn CHR ''A'' + 10
      else if b \<ge> rn CHR ''a'' \<and> b \<le> rn CHR ''f'' then b - rn CHR ''a'' + 10
      else b - rn CHR ''0'')"

text \<open>
  Go's \<^verbatim>\<open>int\<close> is 64 bits wide and \<^verbatim>\<open>rune(sum)\<close> keeps the low 32 bits, both in
  two's complement; \<^verbatim>\<open>strings.Builder.WriteRune\<close> writes U+FFFD for a value that is
  not a Unicode scalar value.
\<close>

definition wrap64 :: "int \<Rightarrow> int" where
  "wrap64 x = (x + 2 ^ 63) mod 2 ^ 64 - 2 ^ 63"

definition wrap32 :: "int \<Rightarrow> int" where
  "wrap32 x = (x + 2 ^ 31) mod 2 ^ 32 - 2 ^ 31"

definition hexRunesToCode :: "rune list \<Rightarrow> rune" where
  "hexRunesToCode b =
     wrap32 (foldl (\<lambda>sum i. wrap64 (sum + wrap64 (hexToInt (b ! i) * 2 ^ ((length b - i - 1) * 4))))
               0 [0 ..< length b])"

definition writeRune :: "rune \<Rightarrow> rune" where
  "writeRune r = (if (0 \<le> r \<and> r < 0xD800) \<or> (0xDFFF < r \<and> r \<le> 0x10FFFF) then r else 0xFFFD)"

definition decodeEscapeSequence :: "Context \<Rightarrow> nat \<times> rune list" where
  "decodeEscapeSequence ctx =
     (if idx ctx + 1 \<ge> length (src ctx) then (0, [])
      else
        let nextChar = src ctx ! (idx ctx + 1)
        in if nextChar = rn CHR ''b'' then (1, [0x08])
           else if nextChar = rn CHR ''e'' then (1, [0x1b])
           else if nextChar = rn CHR ''f'' then (1, [0x0c])
           else if nextChar = rn CHR ''n'' then (1, [0x0a])
           else if nextChar = rn CHR ''v'' then (1, [0x0b])
           else if nextChar = rn CHR ''L'' then (1, [0xE2, 0x80, 0xA8])
           else if nextChar = rn CHR ''N'' then (1, [0xC2, 0x85])
           else if nextChar = rn CHR ''P'' then (1, [0xE2, 0x80, 0xA9])
           else if nextChar = rn CHR ''_'' then (1, [0xC2, 0xA0])
           else if nextChar = rn (CHR 0x22) then (1, [rn (CHR 0x22)])
           else if nextChar = rn (CHR 0x5C) then (1, [rn (CHR 0x5C)])
           else if nextChar = rn CHR ''x'' then
             (if idx ctx + 3 \<ge> length (src ctx) then (0, [])
              else (3, [hexRunesToCode (take 2 (drop (idx ctx + 2) (src ctx)))]))
           else if nextChar = rn CHR ''u'' then
             (if idx ctx + 5 \<ge> length (src ctx) then (0, [])
              else (5, [hexRunesToCode (take 4 (drop (idx ctx + 2) (src ctx)))]))
           else if nextChar = rn CHR ''U'' then
             (if idx ctx + 9 \<ge> length (src ctx) then (0, [])
              else (9, [hexRunesToCode (take 8 (drop (idx ctx + 2) (src ctx)))]))
           else (0, []))"

function scanDoubleQuote_loop ::
  "Scanner \<Rightarrow> Context \<Rightarrow> nat \<Rightarrow> bool \<Rightarrow> rune list \<Rightarrow> (Token option \<times> nat) \<times> Context" where
  "scanDoubleQuote_loop s ctx len isFirstLineChar val =
     (if idx ctx < length (src ctx) then
        let c = src ctx ! idx ctx;
            ctx1 = addOriginBuf c ctx
        in if isNewLineChar c
           then scanDoubleQuote_loop s (progress 1 ctx1) (len + 1) True (val @ [rn CHR '' ''])
           else if c = rn CHR '' '' \<and> isFirstLineChar
           then scanDoubleQuote_loop s (progress 1 ctx1) (len + 1) isFirstLineChar val
           else if c = rn (CHR 0x5C)
           then (case decodeEscapeSequence ctx1 of (escapeLen, rs) \<Rightarrow>
                   if escapeLen \<noteq> 0
                   then scanDoubleQuote_loop s
                          (progress 1 (progress escapeLen
                             (appendOriginBuf (take escapeLen (drop (idx ctx1 + 1) (src ctx1))) ctx1)))
                          (len + escapeLen + 1) False (val @ map writeRune rs)
                   else scanDoubleQuote_loop s (progress 1 ctx1) (len + 1) False
                          (val @ map writeRune [rn (CHR 0x5C)]))
           else if c = rn (CHR 0x22)
           then ((Some (token_DoubleQuote val (obuf ctx1) (pos s)), len), ctx1)
           else scanDoubleQuote_loop s (progress 1 ctx1) (len + 1) False (val @ [c])
      else ((None, 0), ctx))"
  by pat_completeness auto
termination
  by (relation "measure (\<lambda>(s, ctx, len, f, v). length (src ctx) - idx ctx)") auto

declare scanDoubleQuote_loop.simps [simp del]

definition scanDoubleQuote :: "Scanner \<Rightarrow> Context \<Rightarrow> (Token option \<times> nat) \<times> Context" where
  "scanDoubleQuote s ctx =
     scanDoubleQuote_loop s (progress 1 (addOriginBuf (rn (CHR 0x22)) ctx)) 1 False []"

definition scanQuote :: "Scanner \<Rightarrow> Context \<Rightarrow> rune \<Rightarrow> (Token option \<times> nat) \<times> Context" where
  "scanQuote s ctx ch =
     (if ch = rn (CHR 0x27) then scanSingleQuote s ctx else scanDoubleQuote s ctx)"

subsection \<open>Template actions\<close>

function scanTemplateString_loop :: "Context \<Rightarrow> Context" where
  "scanTemplateString_loop ctx =
     (if next_c ctx then
        let c = currentChar ctx;
            ctx1 = progress 1 (addOriginBuf c ctx)
        in if c = rn CHR ''\<newline>'' \<or> (c = rn (CHR 0x22) \<and> previousChar ctx1 \<noteq> rn (CHR 0x5C))
           then ctx1
           else scanTemplateString_loop ctx1
      else ctx)"
  by pat_completeness auto
termination
  by (relation "measure (\<lambda>ctx. csize ctx - idx ctx)") (auto simp: next_c_def)

declare scanTemplateString_loop.simps [simp del]

definition scanTemplateString :: "Context \<Rightarrow> Context" where
  "scanTemplateString ctx = scanTemplateString_loop (progress 1 (addOriginBuf (rn (CHR 0x22)) ctx))"

lemma scanTemplateString_loop_fields:
  "idx ctx \<le> idx (scanTemplateString_loop ctx) \<and> csize (scanTemplateString_loop ctx) = csize ctx
   \<and> src (scanTemplateString_loop ctx) = src ctx"
proof (induction ctx rule: scanTemplateString_loop.induct)
  case (1 ctx)
  show ?case
  proof (cases "next_c ctx")
    case False
    then show ?thesis by (subst (1 2 3) scanTemplateString_loop.simps) simp
  next
    case True
    let ?c = "currentChar ctx"
    let ?ctx1 = "progress 1 (addOriginBuf ?c ctx)"
    show ?thesis
    proof (cases "?c = rn CHR ''\<newline>'' \<or> (?c = rn (CHR 0x22) \<and> previousChar ?ctx1 \<noteq> rn (CHR 0x5C))")
      case stop: True
      then show ?thesis using True
        by (subst (1 2 3) scanTemplateString_loop.simps) (simp add: Let_def)
    next
      case go: False
      have "idx ?ctx1 \<le> idx (scanTemplateString_loop ?ctx1)
            \<and> csize (scanTemplateString_loop ?ctx1) = csize ?ctx1
            \<and> src (scanTemplateString_loop ?ctx1) = src ?ctx1"
        using "1.IH" [OF True refl refl go] .
      then show ?thesis using True go
        by (subst (1 2 3) scanTemplateString_loop.simps) (simp add: Let_def)
    qed
  qed
qed

lemma scanTemplateString_fields:
  "idx ctx < idx (scanTemplateString ctx)" "csize (scanTemplateString ctx) = csize ctx"
  "src (scanTemplateString ctx) = src ctx"
  using scanTemplateString_loop_fields [of "progress 1 (addOriginBuf (rn (CHR 0x22)) ctx)"]
  by (simp_all add: scanTemplateString_def)

function scanTemplate_loop :: "Scanner \<Rightarrow> nat \<Rightarrow> Context \<Rightarrow> Token option \<times> Context" where
  "scanTemplate_loop s p ctx =
     (if next_c ctx then
        let c = currentChar ctx
        in if c = rn CHR ''}'' \<and> repeatNum ctx (rn CHR ''}'') = 2
           then (let ctx1 = progress 2 (addOriginBuf (rn CHR ''}'') (addOriginBuf (rn CHR ''}'') ctx))
                 in (Some (token_Template (take (idx ctx1 - p) (drop p (src ctx1))) (obuf ctx1) (pos s)),
                     ctx1))
           else if c = rn (CHR 0x22)
           then scanTemplate_loop s p (scanTemplateString ctx)
           else scanTemplate_loop s p (progress 1 (addOriginBuf c ctx))
      else (None, ctx))"
  by pat_completeness auto
termination
  by (relation "measure (\<lambda>(s, p, ctx). csize ctx - idx ctx)")
     (auto simp: next_c_def scanTemplateString_fields intro: diff_less_mono2)

declare scanTemplate_loop.simps [simp del]

definition scanTemplate :: "Scanner \<Rightarrow> Context \<Rightarrow> Token option \<times> Context" where
  "scanTemplate s ctx =
     scanTemplate_loop s (idx ctx)
       (progress 2 (addOriginBuf (rn CHR ''{'') (addOriginBuf (rn CHR ''{'') ctx)))"

subsection \<open>Tags and comments\<close>

text \<open>
  \<^verbatim>\<open>for idx, c := range ctx.src[ctx.idx:]\<close> is a recursion on the loop index \<open>i\<close>;
  the last argument is the named result \<^verbatim>\<open>pos\<close>, which the loop body assigns.
\<close>

function scanTag_loop ::
  "Scanner \<Rightarrow> Context \<Rightarrow> nat \<Rightarrow> nat \<Rightarrow> (Token option \<times> nat) \<times> Context" where
  "scanTag_loop s ctx i p =
     (if idx ctx + i < length (src ctx) then
        let c = src ctx ! (idx ctx + i);
            ctx1 = addOriginBuf c ctx
        in if c = rn CHR '' '' \<or> c = rn CHR ''\<newline>'' \<or> c = rn (CHR 0x0D)
           then (let val = source_c ctx1 (idx ctx1 - 1) (idx ctx1 + i)
                 in ((Some (token_Tag val (obuf ctx1) (pos s)), length val), ctx1))
           else scanTag_loop s ctx1 (i + 1) (i + 1)
      else ((None, p), ctx))"
  by pat_completeness auto
termination
  by (relation "measure (\<lambda>(s, ctx, i, p). length (src ctx) - (idx ctx + i))") auto

declare scanTag_loop.simps [simp del]

definition scanTag :: "Scanner \<Rightarrow> Context \<Rightarrow> (Token option \<times> nat) \<times> Context" where
  "scanTag s ctx = scanTag_loop s (progress 1 (addOriginBuf (rn CHR ''!'') ctx)) 0 0"

function scanComment_loop ::
  "Scanner \<Rightarrow> Context \<Rightarrow> nat \<Rightarrow> nat \<Rightarrow> (Token option \<times> nat) \<times> Context" where
  "scanComment_loop s ctx i p =
     (if idx ctx + i < length (src ctx) then
        let c = src ctx ! (idx ctx + i);
            ctx1 = addOriginBuf c ctx
        in if c = rn CHR ''\<newline>'' \<or> c = rn (CHR 0x0D)
           then (if previousChar ctx1 = rn (CHR 0x5C)
                 then scanComment_loop s ctx1 (i + 1) (i + 1)
                 else (let val = source_c ctx1 (idx ctx1) (idx ctx1 + i)
                       in ((Some (token_Comment val (obuf ctx1) (pos s)), length val + 1), ctx1)))
           else scanComment_loop s ctx1 (i + 1) (i + 1)
      else ((None, p), ctx))"
  by pat_completeness auto
termination
  by (relation "measure (\<lambda>(s, ctx, i, p). length (src ctx) - (idx ctx + i))") auto

declare scanComment_loop.simps [simp del]

definition scanComment :: "Scanner \<Rightarrow> Context \<Rightarrow> (Token option \<times> nat) \<times> Context" where
  "scanComment s ctx = scanComment_loop s (progress 1 (addOriginBuf (rn CHR ''#'') ctx)) 0 0"

subsection \<open>Block scalars\<close>

definition scanScalar :: "Scanner \<times> Context \<Rightarrow> rune \<Rightarrow> Scanner \<times> Context" where
  "scanScalar sc c = (case sc of (s, ctx0) \<Rightarrow>
     let ctx = addOriginBuf c ctx0
     in if isEOS ctx then
          (let ctx1 = (if isLiteral ctx then addBuf c (pos s) ctx else ctx);
               val = bufferedSrc ctx1;
               ctx2 = addToken (Some (token_String val (obuf ctx1) (Some (pos s)))) ctx1
           in progressColumn 1 (s, resetBuffer ctx2))
        else if isNewLineChar c then
          (if isLiteral ctx then progressLine (s, addBuf c (pos s) ctx)
           else progressLine (s, addBuf (rn CHR '' '') (pos s) ctx))
        else if isFirstCharAtLine s \<and> c = rn CHR '' '' then
          (if 0 < docStartColumn s \<and> docStartColumn s \<le> column s
           then progressColumn 1 (s, addBuf c (pos s) ctx)
           else progressColumn 1 (s, ctx))
        else
          (let s1 = (if docStartColumn s = 0 then s\<lparr>docStartColumn := column s\<rparr> else s)
           in progressColumn 1 (s1, addBuf c (pos s1) ctx)))"

datatype error = EOF | ErrorString string

definition trimRightSpaces :: "rune list \<Rightarrow> rune list" where
  "trimRightSpaces v = rev (dropWhile (\<lambda>r. r = rn CHR '' '') (rev v))"

text \<open>The empty string and the one-rune strings that the inner switch accepts.\<close>

definition validHeaderOptions :: "rune list list" where
  "validHeaderOptions = [] # map (\<lambda>c. [rn c]) ''+-0123456789''"

text \<open>
  In the source the \<^verbatim>\<open>break\<close> after the inner switch leaves the outer
  \<^verbatim>\<open>switch c\<close> only, so after a line break with an invalid option text the
  \<^verbatim>\<open>range\<close> loop goes on to the next rune.
\<close>

function scanScalarHeader_loop ::
  "rune \<Rightarrow> Scanner \<Rightarrow> Context \<Rightarrow> nat \<Rightarrow> nat \<Rightarrow> (nat \<times> error option) \<times> Scanner \<times> Context" where
  "scanScalarHeader_loop header s ctx i p =
     (if idx ctx + i < length (src ctx) then
        let c = src ctx ! (idx ctx + i);
            ctx1 = addOriginBuf c ctx
        in if c = rn CHR ''\<newline>'' \<or> c = rn (CHR 0x0D)
           then (let val = source_c ctx1 (idx ctx1) (idx ctx1 + i);
                     opt = trimRightSpaces val
                 in if opt \<in> set validHeaderOptions
                    then (let ctx2 =
                                (if header = rn CHR ''|''
                                 then (addToken (Some (token_Literal (rn CHR ''|'' # opt) (obuf ctx1) (pos s))) ctx1)
                                        \<lparr>isLiteral := True\<rparr>
                                 else if header = rn CHR ''>''
                                 then (addToken (Some (token_Folded (rn CHR ''>'' # opt) (obuf ctx1) (pos s))) ctx1)
                                        \<lparr>isFolded := True\<rparr>
                                 else ctx1)
                          in ((i, None), s\<lparr>indentState := IndentStateKeep\<rparr>,
                              (resetBuffer ctx2)\<lparr>literalOpt := opt\<rparr>))
                    else scanScalarHeader_loop header s ctx1 (i + 1) i)
           else scanScalarHeader_loop header s ctx1 (i + 1) i
      else ((p, Some (ErrorString ''invalid literal header'')), s, ctx))"
  by pat_completeness auto
termination
  by (relation "measure (\<lambda>(h, s, ctx, i, p). length (src ctx) - (idx ctx + i))") auto

declare scanScalarHeader_loop.simps [simp del]

definition scanScalarHeader ::
  "Scanner \<times> Context \<Rightarrow> (nat \<times> error option) \<times> Scanner \<times> Context" where
  "scanScalarHeader sc = (case sc of (s, ctx) \<Rightarrow>
     let header = currentChar ctx
     in scanScalarHeader_loop header s (progress 1 (addOriginBuf header ctx)) 0 0)"

subsection \<open>Line breaks\<close>

definition scanNewLine :: "Scanner \<times> Context \<Rightarrow> rune \<Rightarrow> Scanner \<times> Context" where
  "scanNewLine sc c0 = (case sc of (s, ctx0) \<Rightarrow>
     let crlf = (c0 = rn (CHR 0x0D) \<and> nextChar ctx0 = rn CHR ''\<newline>'');
         ctx1 = (if crlf then progress 1 (addOriginBuf (rn (CHR 0x0D)) ctx0) else ctx0);
         c = (if crlf then rn CHR ''\<newline>'' else c0);
         ctx2 = snd (removeRightSpaceFromBuf ctx1);
         ctx3 = (if isEOS ctx2 then addBufferedTokenIfExists ctx2
                 else if isAnchor s then addBufferedTokenIfExists ctx2
                 else ctx2);
         ctx4 = addBuf (rn CHR '' '') (pos s) ctx3;
         ctx5 = addOriginBuf c ctx4
     in progressLine (s, ctx5\<lparr>isSingleLine := False\<rparr>))"

subsection \<open>The scan loop\<close>

text \<open>
  One pass through the body of the \<^verbatim>\<open>for ctx.next()\<close> loop of \<^verbatim>\<open>scan\<close> either
  goes on with the loop (\<open>Continue\<close>), returns a value for the named result
  \<^verbatim>\<open>pos\<close> (\<open>Return\<close>), or dereferences the nil position of a buffered token
  (\<open>Panic\<close>). A \<^verbatim>\<open>case\<close> of the switch whose inner condition fails falls out of
  the switch to the statements after it, \<open>scan_default\<close>.
\<close>

datatype Flow = Continue "Scanner \<times> Context" | Return nat "Scanner \<times> Context" | Panic

definition scan_default :: "rune \<Rightarrow> Scanner \<times> Context \<Rightarrow> Flow" where
  "scan_default c sc = (case sc of (s, ctx) \<Rightarrow>
     Continue (progressColumn 1 (s, addOriginBuf c (addBuf c (pos s) ctx))))"

definition scan_lbrace :: "nat \<Rightarrow> rune \<Rightarrow> Scanner \<times> Context \<Rightarrow> Flow" where
  "scan_lbrace p c sc = (case sc of (s, ctx) \<Rightarrow>
     if repeatNum ctx (rn CHR ''{'') = 2 then
       (let ctx1 = addBufferedTokenIfExists ctx
        in case scanTemplate s ctx1 of (tk, ctx2) \<Rightarrow>
             (let ctx3 = addToken tk ctx2 in Return (idx ctx3) (s, ctx3)))
     else if \<not> existsBuffer ctx then
       (let ctx1 = addOriginBuf c ctx;
            ctx2 = addToken (Some (token_MappingStart (obuf ctx1) (pos s))) ctx1;
            s1 = s\<lparr>startedFlowMapNum := startedFlowMapNum s + 1\<rparr>
        in Return p (progressColumn 1 (s1, ctx2)))
     else scan_default c sc)"

definition scan_rbrace :: "nat \<Rightarrow> rune \<Rightarrow> Scanner \<times> Context \<Rightarrow> Flow" where
  "scan_rbrace p c sc = (case sc of (s, ctx) \<Rightarrow>
     if \<not> existsBuffer ctx \<or> startedFlowMapNum s > 0 then
       (let ctx1 = (case bufferedToken ctx of (tk, ctx') \<Rightarrow> addToken tk ctx');
            ctx2 = addOriginBuf c ctx1;
            ctx3 = addToken (Some (token_MappingEnd (obuf ctx2) (pos s))) ctx2;
            s1 = s\<lparr>startedFlowMapNum := startedFlowMapNum s - 1\<rparr>
        in Return p (progressColumn 1 (s1, ctx3)))
     else scan_default c sc)"

definition scan_dot :: "nat \<Rightarrow> rune \<Rightarrow> Scanner \<times> Context \<Rightarrow> Flow" where
  "scan_dot p c sc = (case sc of (s, ctx) \<Rightarrow>
     if indentNum s = 0 \<and> repeatNum ctx (rn CHR ''.'') = 3 then
       Return (p + 2) (progressColumn 3 (s, addToken (Some (token_DocumentEnd (pos s))) ctx))
     else scan_default c sc)"

definition scan_less :: "nat \<Rightarrow> rune \<Rightarrow> Scanner \<times> Context \<Rightarrow> Flow" where
  "scan_less p c sc = (case sc of (s, ctx) \<Rightarrow>
     if repeatNum ctx (rn CHR ''<'') = 2 then
       (let s1 = s\<lparr>prevIndentColumn := column s\<rparr>;
            ctx1 = addToken (Some (token_MergeKey (obuf ctx @ runes ''<<'') (pos s1))) ctx
        in Return (p + 1) (progressColumn 1 (s1, ctx1)))
     else scan_default c sc)"

definition scan_minus :: "nat \<Rightarrow> rune \<Rightarrow> Scanner \<times> Context \<Rightarrow> Flow" where
  "scan_minus p c sc = (case sc of (s, ctx) \<Rightarrow>
     if indentNum s = 0 \<and> repeatNum ctx (rn CHR ''-'') = 3 then
       (let ctx1 = addBufferedTokenIfExists ctx;
            ctx2 = addToken (Some (token_DocumentHeader (pos s))) ctx1
        in Return (p + 2) (progressColumn 3 (s, ctx2)))
     else if existsBuffer ctx \<and> isChangedToIndentStateUp s then
       (let ctx1 = ctx\<lparr>isRawFolded := True\<rparr>
        in Continue (progressColumn 1 (s, addOriginBuf c (addBuf c (pos s) ctx1))))
     else if existsBuffer ctx then
       Continue (progressColumn 1 (s, addOriginBuf c (addBuf c (pos s) ctx)))
     else
       (let nc = nextChar ctx
        in if nc = rn CHR '' '' \<or> isNewLineChar nc then
             (let ctx1 = addOriginBuf c (addBufferedTokenIfExists ctx);
                  tk = token_SequenceEntry (obuf ctx1) (pos s)
              in case Position tk of
                   None \<Rightarrow> Panic
                 | Some tp \<Rightarrow>
                     Return p (progressColumn 1
                       (s\<lparr>prevIndentColumn := Column tp\<rparr>, addToken (Some tk) ctx1)))
           else scan_default c sc))"

definition scan_lbracket :: "nat \<Rightarrow> rune \<Rightarrow> Scanner \<times> Context \<Rightarrow> Flow" where
  "scan_lbracket p c sc = (case sc of (s, ctx) \<Rightarrow>
     if \<not> existsBuffer ctx then
       (let ctx1 = addOriginBuf c ctx;
            ctx2 = addToken (Some (token_SequenceStart (obuf ctx1) (pos s))) ctx1;
            s1 = s\<lparr>startedFlowSequenceNum := startedFlowSequenceNum s + 1\<rparr>
        in Return p (progressColumn 1 (s1, ctx2)))
     else scan_default c sc)"

definition scan_rbracket :: "nat \<Rightarrow> rune \<Rightarrow> Scanner \<times> Context \<Rightarrow> Flow" where
  "scan_rbracket p c sc = (case sc of (s, ctx) \<Rightarrow>
     if \<not> existsBuffer ctx \<or> startedFlowSequenceNum s > 0 then
       (let ctx1 = addBufferedTokenIfExists ctx;
            ctx2 = addOriginBuf c ctx1;
            ctx3 = addToken (Some (token_SequenceEnd (obuf ctx2) (pos s))) ctx2;
            s1 = s\<lparr>startedFlowSequenceNum := startedFlowSequenceNum s - 1\<rparr>
        in Return p (progressColumn 1 (s1, ctx3)))
     else scan_default c sc)"

definition scan_comma :: "nat \<Rightarrow> rune \<Rightarrow> Scanner \<times> Context \<Rightarrow> Flow" where
  "scan_comma p c sc = (case sc of (s, ctx) \<Rightarrow>
     if startedFlowSequenceNum s > 0 \<or> startedFlowMapNum s > 0 then
       (let ctx1 = addBufferedTokenIfExists ctx;
            ctx2 = addOriginBuf c ctx1;
            ctx3 = addToken (Some (token_CollectEntry (obuf ctx2) (pos s))) ctx2
        in Return p (progressColumn 1 (s, ctx3)))
     else scan_default c sc)"

definition scan_colon :: "nat \<Rightarrow> rune \<Rightarrow> Scanner \<times> Context \<Rightarrow> Flow" where
  "scan_colon p c sc = (case sc of (s, ctx) \<Rightarrow>
     let nc = nextChar ctx
     in if startedFlowMapNum s > 0 \<or> nc = rn CHR '' '' \<or> isNewLineChar nc \<or> isNextEOS ctx then
          (case bufferedToken ctx of
             (None, ctx1) \<Rightarrow>
               Return p (progressColumn 1 (s, addToken (Some (token_MappingValue (pos s))) ctx1))
           | (Some tk, ctx1) \<Rightarrow>
               (case Position tk of
                  None \<Rightarrow> Panic
                | Some tp \<Rightarrow>
                    (let s1 = s\<lparr>prevIndentColumn := Column tp\<rparr>;
                         ctx2 = addToken (Some tk) ctx1
                     in Return p (progressColumn 1
                          (s1, addToken (Some (token_MappingValue (pos s1))) ctx2)))))
        else scan_default c sc)"

definition scan_header :: "nat \<Rightarrow> rune \<Rightarrow> Scanner \<times> Context \<Rightarrow> Flow" where
  "scan_header p c sc = (case sc of (s, ctx) \<Rightarrow>
     if \<not> existsBuffer ctx then
       (case scanScalarHeader sc of
          ((prog, err), sc1) \<Rightarrow>
            if err \<noteq> None then Return p sc1
            else Continue (progressLine (progressColumn prog sc1)))
     else scan_default c sc)"

definition scan_bang :: "nat \<Rightarrow> rune \<Rightarrow> Scanner \<times> Context \<Rightarrow> Flow" where
  "scan_bang p c sc = (case sc of (s, ctx) \<Rightarrow>
     if \<not> existsBuffer ctx then
       (case scanTag s ctx of
          ((tk, prog), ctx1) \<Rightarrow>
            (let sc2 = progressColumn prog (s, addToken tk ctx1);
                 sc3 = (if isNewLineChar (previousChar (snd sc2)) then progressLine sc2 else sc2)
             in Return (p + prog) sc3))
     else scan_default c sc)"

definition scan_percent :: "nat \<Rightarrow> rune \<Rightarrow> Scanner \<times> Context \<Rightarrow> Flow" where
  "scan_percent p c sc = (case sc of (s, ctx) \<Rightarrow>
     if \<not> existsBuffer ctx \<and> indentNum s = 0 then
       Return p (progressColumn 1 (s, addToken (Some (token_Directive (pos s))) ctx))
     else scan_default c sc)"

definition scan_question :: "nat \<Rightarrow> rune \<Rightarrow> Scanner \<times> Context \<Rightarrow> Flow" where
  "scan_question p c sc = (case sc of (s, ctx) \<Rightarrow>
     let nc = nextChar ctx
     in if \<not> existsBuffer ctx \<and> nc = rn CHR '' '' then
          Return p (progressColumn 1 (s, addToken (Some (token_MappingKey (pos s))) ctx))
        else scan_default c sc)"

definition scan_amp :: "nat \<Rightarrow> rune \<Rightarrow> Scanner \<times> Context \<Rightarrow> Flow" where
  "scan_amp p c sc = (case sc of (s, ctx) \<Rightarrow>
     if \<not> existsBuffer ctx then
       (let ctx1 = addOriginBuf c (addBufferedTokenIfExists ctx);
            ctx2 = addToken (Some (token_Anchor (obuf ctx1) (pos s))) ctx1
        in case progressColumn 1 (s, ctx2) of
             (s1, ctx3) \<Rightarrow> Return p (s1\<lparr>isAnchor := True\<rparr>, ctx3))
     else scan_default c sc)"

definition scan_star :: "nat \<Rightarrow> rune \<Rightarrow> Scanner \<times> Context \<Rightarrow> Flow" where
  "scan_star p c sc = (case sc of (s, ctx) \<Rightarrow>
     if \<not> existsBuffer ctx then
       (let ctx1 = addOriginBuf c (addBufferedTokenIfExists ctx);
            ctx2 = addToken (Some (token_Alias (obuf ctx1) (pos s))) ctx1
        in Return p (progressColumn 1 (s, ctx2)))
     else scan_default c sc)"

definition scan_hash :: "nat \<Rightarrow> rune \<Rightarrow> Scanner \<times> Context \<Rightarrow> Flow" where
  "scan_hash p c sc = (case sc of (s, ctx) \<Rightarrow>
     if \<not> existsBuffer ctx \<or> previousChar ctx = rn CHR '' '' then
       (case scanComment s (addBufferedTokenIfExists ctx) of
          ((tk, prog), ctx1) \<Rightarrow>
            Return (p + prog) (progressLine (progressColumn prog (s, addToken tk ctx1))))
     else scan_default c sc)"

definition scan_quote :: "nat \<Rightarrow> rune \<Rightarrow> Scanner \<times> Context \<Rightarrow> Flow" where
  "scan_quote p c sc = (case sc of (s, ctx) \<Rightarrow>
     if \<not> existsBuffer ctx then
       (case scanQuote s ctx c of
          ((tk, prog), ctx1) \<Rightarrow> Return (p + prog) (progressColumn prog (s, addToken tk ctx1)))
     else scan_default c sc)"

definition scan_space :: "nat \<Rightarrow> rune \<Rightarrow> Scanner \<times> Context \<Rightarrow> Flow" where
  "scan_space p c sc = (case sc of (s, ctx) \<Rightarrow>
     if isSaveIndentMode ctx \<or> (\<not> isAnchor s \<and> \<not> isFirstCharAtLine s) then
       Continue (progressColumn 1 (s, addOriginBuf c (addBuf c (pos s) ctx)))
     else if isFirstCharAtLine s then
       (case progressColumn 1 sc of (s1, ctx1) \<Rightarrow> Continue (s1, addOriginBuf c ctx1))
     else
       (case progressColumn 1 (s, addBufferedTokenIfExists ctx) of
          (s1, ctx1) \<Rightarrow> Return p (s1\<lparr>isAnchor := False\<rparr>, ctx1)))"

definition scan_switch :: "nat \<Rightarrow> rune \<Rightarrow> Scanner \<times> Context \<Rightarrow> Flow" where
  "scan_switch p c sc =
     (if c = rn CHR ''{'' then scan_lbrace p c sc
      else if c = rn CHR ''}'' then scan_rbrace p c sc
      else if c = rn CHR ''.'' then scan_dot p c sc
      else if c = rn CHR ''<'' then scan_less p c sc
      else if c = rn CHR ''-'' then scan_minus p c sc
      else if c = rn CHR ''['' then scan_lbracket p c sc
      else if c = rn CHR '']'' then scan_rbracket p c sc
      else if c = rn CHR '','' then scan_comma p c sc
      else if c = rn CHR '':'' then scan_colon p c sc
      else if c = rn CHR ''|'' \<or> c = rn CHR ''>'' then scan_header p c sc
      else if c = rn CHR ''!'' then scan_bang p c sc
      else if c = rn CHR ''%'' then scan_percent p c sc
      else if c = rn CHR ''?'' then scan_question p c sc
      else if c = rn CHR ''&'' then scan_amp p c sc
      else if c = rn CHR ''*'' then scan_star p c sc
      else if c = rn CHR ''#'' then scan_hash p c sc
      else if c = rn (CHR 0x27) \<or> c = rn (CHR 0x22) then scan_quote p c sc
      else if c = rn (CHR 0x0D) \<or> c = rn CHR ''\<newline>'' then Continue (scanNewLine sc c)
      else if c = rn CHR '' '' then scan_space p c sc
      else scan_default c sc)"

definition scan_iter :: "Scanner \<times> Context \<Rightarrow> Flow" where
  "scan_iter sc = (case sc of (s0, ctx) \<Rightarrow>
     let p = nextPos ctx;
         c = currentChar ctx;
         s = updateIndent s0 ctx c
     in if isBlockScalar ctx then
          (if isChangedToIndentStateEqual s \<or> isChangedToIndentStateDown s
           then scan_switch p c (breakScalar (s, addBufferedTokenIfExists ctx))
           else Continue (scanScalar (s, ctx) c))
        else if isChangedToIndentStateDown s
        then scan_switch p c (s, addBufferedTokenIfExists ctx)
        else if isChangedToIndentStateEqual s
        then (if length (obuf ctx) > 0 \<and> newLineCount (obuf ctx) \<le> 1
              then scan_switch p c (s, addBufferedTokenIfExists ctx)
              else scan_switch p c (s, ctx))
        else scan_switch p c (s, ctx))"

subsection \<open>Every pass through the loop body advances the scan index\<close>

lemma addBuf_fields [simp]:
  "idx (addBuf r p c) = idx c" "src (addBuf r p c) = src c" "csize (addBuf r p c) = csize c"
  by (simp_all add: addBuf_def Let_def)

lemma addToken_fields [simp]:
  "idx (addToken t c) = idx c" "src (addToken t c) = src c" "csize (addToken t c) = csize c"
  by (simp_all add: addToken_def split: option.splits)

lemma resetBuffer_fields [simp]:
  "idx (resetBuffer c) = idx c" "src (resetBuffer c) = src c" "csize (resetBuffer c) = csize c"
  by (simp_all add: resetBuffer_def)

lemma bufferedToken_fields [simp]:
  "idx (snd (bufferedToken c)) = idx c" "src (snd (bufferedToken c)) = src c"
  "csize (snd (bufferedToken c)) = csize c"
  by (simp_all add: bufferedToken_def Let_def)

lemma addBufferedTokenIfExists_fields [simp]:
  "idx (addBufferedTokenIfExists c) = idx c" "src (addBufferedTokenIfExists c) = src c"
  "csize (addBufferedTokenIfExists c) = csize c"
  by (simp_all add: addBufferedTokenIfExists_def bufferedToken_def Let_def)

lemma breakScalar_ctx_fields [simp]:
  "idx (breakScalar_ctx c) = idx c" "src (breakScalar_ctx c) = src c"
  "csize (breakScalar_ctx c) = csize c"
  by (simp_all add: breakScalar_ctx_def)

lemma removeRightSpaceFromBuf_fields [simp]:
  "idx (snd (removeRightSpaceFromBuf c)) = idx c" "src (snd (removeRightSpaceFromBuf c)) = src c"
  "csize (snd (removeRightSpaceFromBuf c)) = csize c"
  by (simp_all add: removeRightSpaceFromBuf_def Let_def)

lemma progressColumn_pair [simp]:
  "progressColumn n (s, ctx) =
     (s\<lparr>column := column s + int n, offset := offset s + int n\<rparr>, progress n ctx)"
  by (simp add: progressColumn_def)

lemma progressLine_pair [simp]:
  "progressLine (s, ctx) =
     (s\<lparr>column := 1, line := line s + 1, offset := offset s + 1, indentNum := 0,
        isFirstCharAtLine := True, isAnchor := False\<rparr>, progress 1 ctx)"
  by (simp add: progressLine_def)

lemma progressColumn_ctx [simp]:
  "idx (snd (progressColumn n sc)) = idx (snd sc) + n"
  "src (snd (progressColumn n sc)) = src (snd sc)"
  "csize (snd (progressColumn n sc)) = csize (snd sc)"
  by (simp_all add: progressColumn_def split: prod.splits)

lemma progressLine_ctx [simp]:
  "idx (snd (progressLine sc)) = idx (snd sc) + 1"
  "src (snd (progressLine sc)) = src (snd sc)"
  "csize (snd (progressLine sc)) = csize (snd sc)"
  by (simp_all add: progressLine_def split: prod.splits)

lemma scanScalar_ctx:
  "idx (snd (scanScalar (s, ctx) c)) = idx ctx + 1"
  "src (snd (scanScalar (s, ctx) c)) = src ctx"
  "csize (snd (scanScalar (s, ctx) c)) = csize ctx"
  by (simp_all add: scanScalar_def Let_def)

lemma scanNewLine_ctx:
  "idx ctx < idx (snd (scanNewLine (s, ctx) c))"
  "src (snd (scanNewLine (s, ctx) c)) = src ctx"
  "csize (snd (scanNewLine (s, ctx) c)) = csize ctx"
  by (simp_all add: scanNewLine_def Let_def)

lemma scanScalarHeader_loop_ctx:
  "scanScalarHeader_loop h s ctx i p = ((n, None), s', ctx') \<Longrightarrow>
     idx ctx' = idx ctx \<and> src ctx' = src ctx \<and> csize ctx' = csize ctx"
proof (induction h s ctx i p rule: scanScalarHeader_loop.induct)
  case (1 header s ctx i p)
  show ?case using "1.prems" "1.IH"
    apply (subst (asm) scanScalarHeader_loop.simps)
    apply (auto simp: Let_def split: if_splits)
    done
qed

definition advances :: "Context \<Rightarrow> Flow \<Rightarrow> bool" where
  "advances ctx fl = (case fl of
       Continue sc' \<Rightarrow> idx ctx < idx (snd sc') \<and> csize (snd sc') = csize ctx \<and> src (snd sc') = src ctx
     | Return p sc' \<Rightarrow> idx ctx < p
     | Panic \<Rightarrow> True)"

lemma advances_default:
  "idx ctx' = idx ctx \<Longrightarrow> csize ctx' = csize ctx \<Longrightarrow> src ctx' = src ctx \<Longrightarrow>
   advances ctx (scan_default c (s, ctx'))"
  by (simp add: advances_def scan_default_def)

lemma scanTemplate_loop_idx:
  "scanTemplate_loop s p ctx = (tk, ctx') \<Longrightarrow> idx ctx \<le> idx ctx'"
proof (induction s p ctx rule: scanTemplate_loop.induct)
  case (1 s p ctx)
  show ?case
  proof (cases "next_c ctx")
    case False
    with "1.prems" show ?thesis by (subst (asm) scanTemplate_loop.simps) simp
  next
    case True
    let ?c = "currentChar ctx"
    show ?thesis
    proof (cases "?c = rn CHR ''}'' \<and> repeatNum ctx (rn CHR ''}'') = 2")
      case close: True
      with True "1.prems" show ?thesis
        by (subst (asm) scanTemplate_loop.simps) (auto simp: Let_def)
    next
      case nclose: False
      show ?thesis
      proof (cases "?c = rn (CHR 0x22)")
        case str: True
        have "scanTemplate_loop s p (scanTemplateString ctx) = (tk, ctx')"
          using "1.prems" True nclose str
          by (subst (asm) scanTemplate_loop.simps) (auto simp: Let_def split: if_splits)
        from "1.IH"(1) [OF True refl nclose str this]
        show ?thesis using scanTemplateString_fields(1) [of ctx] by simp
      next
        case nstr: False
        have "scanTemplate_loop s p (progress 1 (addOriginBuf ?c ctx)) = (tk, ctx')"
          using "1.prems" True nclose nstr
          by (subst (asm) scanTemplate_loop.simps) (auto simp: Let_def split: if_splits)
        from "1.IH"(2) [OF True refl nclose nstr this]
        show ?thesis by simp
      qed
    qed
  qed
qed



lemma advances_lbrace:
  "idx ctx' = idx ctx \<Longrightarrow> csize ctx' = csize ctx \<Longrightarrow> src ctx' = src ctx \<Longrightarrow>
   advances ctx (scan_lbrace (nextPos ctx) c (s, ctx'))"
  by (auto simp: advances_def scan_lbrace_def scan_default_def scanTemplate_def Let_def nextPos_def
      split: prod.splits dest!: scanTemplate_loop_idx)

lemma advances_rbrace:
  "idx ctx' = idx ctx \<Longrightarrow> csize ctx' = csize ctx \<Longrightarrow> src ctx' = src ctx \<Longrightarrow>
   advances ctx (scan_rbrace (nextPos ctx) c (s, ctx'))"
  by (auto simp: advances_def scan_rbrace_def scan_default_def Let_def nextPos_def
      split: prod.splits)


lemma advances_dot:
  "idx ctx' = idx ctx \<Longrightarrow> csize ctx' = csize ctx \<Longrightarrow> src ctx' = src ctx \<Longrightarrow>
   advances ctx (scan_dot (nextPos ctx) c (s, ctx'))"
  by (auto simp: advances_def scan_dot_def scan_default_def Let_def nextPos_def
      split: prod.splits option.splits)

lemma advances_less:
  "idx ctx' = idx ctx \<Longrightarrow> csize ctx' = csize ctx \<Longrightarrow> src ctx' = src ctx \<Longrightarrow>
   advances ctx (scan_less (nextPos ctx) c (s, ctx'))"
  by (auto simp: advances_def scan_less_def scan_default_def Let_def nextPos_def
      split: prod.splits option.splits)

lemma advances_minus:
  "idx ctx' = idx ctx \<Longrightarrow> csize ctx' = csize ctx \<Longrightarrow> src ctx' = src ctx \<Longrightarrow>
   advances ctx (scan_minus (nextPos ctx) c (s, ctx'))"
  by (auto simp: advances_def scan_minus_def scan_default_def Let_def nextPos_def
      split: prod.splits option.splits)

lemma advances_lbracket:
  "idx ctx' = idx ctx \<Longrightarrow> csize ctx' = csize ctx \<Longrightarrow> src ctx' = src ctx \<Longrightarrow>
   advances ctx (scan_lbracket (nextPos ctx) c (s, ctx'))"
  by (auto simp: advances_def scan_lbracket_def scan_default_def Let_def nextPos_def
      split: prod.splits option.splits)

lemma advances_rbracket:
  "idx ctx' = idx ctx \<Longrightarrow> csize ctx' = csize ctx \<Longrightarrow> src ctx' = src ctx \<Longrightarrow>
   advances ctx (scan_rbracket (nextPos ctx) c (s, ctx'))"
  by (auto simp: advances_def scan_rbracket_def scan_default_def Let_def nextPos_def
      split: prod.splits option.splits)

lemma advances_comma:
  "idx ctx' = idx ctx \<Longrightarrow> csize ctx' = csize ctx \<Longrightarrow> src ctx' = src ctx \<Longrightarrow>
   advances ctx (scan_comma (nextPos ctx) c (s, ctx'))"
  by (auto simp: advances_def scan_comma_def scan_default_def Let_def nextPos_def
      split: prod.splits option.splits)

lemma advances_colon:
  "idx ctx' = idx ctx \<Longrightarrow> csize ctx' = csize ctx \<Longrightarrow> src ctx' = src ctx \<Longrightarrow>
   advances ctx (scan_colon (nextPos ctx) c (s, ctx'))"
  by (auto simp: advances_def scan_colon_def scan_default_def Let_def nextPos_def
      split: prod.splits option.splits)

lemma advances_percent:
  "idx ctx' = idx ctx \<Longrightarrow> csize ctx' = csize ctx \<Longrightarrow> src ctx' = src ctx \<Longrightarrow>
   advances ctx (scan_percent (nextPos ctx) c (s, ctx'))"
  by (auto simp: advances_def scan_percent_def scan_default_def Let_def nextPos_def
      split: prod.splits option.splits)

lemma advances_question:
  "idx ctx' = idx ctx \<Longrightarrow> csize ctx' = csize ctx \<Longrightarrow> src ctx' = src ctx \<Longrightarrow>
   advances ctx (scan_question (nextPos ctx) c (s, ctx'))"
  by (auto simp: advances_def scan_question_def scan_default_def Let_def nextPos_def
      split: prod.splits option.splits)

lemma advances_amp:
  "idx ctx' = idx ctx \<Longrightarrow> csize ctx' = csize ctx \<Longrightarrow> src ctx' = src ctx \<Longrightarrow>
   advances ctx (scan_amp (nextPos ctx) c (s, ctx'))"
  by (auto simp: advances_def scan_amp_def scan_default_def Let_def nextPos_def
      split: prod.splits option.splits)

lemma advances_star:
  "idx ctx' = idx ctx \<Longrightarrow> csize ctx' = csize ctx \<Longrightarrow> src ctx' = src ctx \<Longrightarrow>
   advances ctx (scan_star (nextPos ctx) c (s, ctx'))"
  by (auto simp: advances_def scan_star_def scan_default_def Let_def nextPos_def
      split: prod.splits option.splits)

lemma advances_space:
  "idx ctx' = idx ctx \<Longrightarrow> csize ctx' = csize ctx \<Longrightarrow> src ctx' = src ctx \<Longrightarrow>
   advances ctx (scan_space (nextPos ctx) c (s, ctx'))"
  by (auto simp: advances_def scan_space_def scan_default_def Let_def nextPos_def
      split: prod.splits option.splits)

lemma advances_bang:
  "idx ctx' = idx ctx \<Longrightarrow> csize ctx' = csize ctx \<Longrightarrow> src ctx' = src ctx \<Longrightarrow>
   advances ctx (scan_bang (nextPos ctx) c (s, ctx'))"
  by (auto simp: advances_def scan_bang_def scan_default_def Let_def nextPos_def
      split: prod.splits option.splits)

lemma advances_hash:
  "idx ctx' = idx ctx \<Longrightarrow> csize ctx' = csize ctx \<Longrightarrow> src ctx' = src ctx \<Longrightarrow>
   advances ctx (scan_hash (nextPos ctx) c (s, ctx'))"
  by (auto simp: advances_def scan_hash_def scan_default_def Let_def nextPos_def
      split: prod.splits option.splits)

lemma advances_quote:
  "idx ctx' = idx ctx \<Longrightarrow> csize ctx' = csize ctx \<Longrightarrow> src ctx' = src ctx \<Longrightarrow>
   advances ctx (scan_quote (nextPos ctx) c (s, ctx'))"
  by (auto simp: advances_def scan_quote_def scan_default_def Let_def nextPos_def
      split: prod.splits option.splits)

lemma scanScalarHeader_ctx:
  "scanScalarHeader (s, ctx) = ((n, None), s', ctx') \<Longrightarrow>
     idx ctx' = idx ctx + 1 \<and> src ctx' = src ctx \<and> csize ctx' = csize ctx"
  by (auto simp: scanScalarHeader_def Let_def dest!: scanScalarHeader_loop_ctx)

lemma advances_header:
  "idx ctx' = idx ctx \<Longrightarrow> csize ctx' = csize ctx \<Longrightarrow> src ctx' = src ctx \<Longrightarrow>
   advances ctx (scan_header (nextPos ctx) c (s, ctx'))"
  by (auto simp: advances_def scan_header_def scan_default_def Let_def nextPos_def
      split: prod.splits option.splits dest!: scanScalarHeader_ctx)

lemma advances_newline:
  "idx ctx' = idx ctx \<Longrightarrow> csize ctx' = csize ctx \<Longrightarrow> src ctx' = src ctx \<Longrightarrow>
   advances ctx (Continue (scanNewLine (s, ctx') c))"
  using scanNewLine_ctx [where ctx="ctx'" and s=s and c=c] by (simp add: advances_def)

lemmas advances_cases = advances_newline advances_lbrace advances_rbrace advances_dot advances_less advances_minus
  advances_lbracket advances_rbracket advances_comma advances_colon advances_header advances_bang
  advances_percent advances_question advances_amp advances_star advances_hash advances_quote
  advances_space advances_default

lemma advances_switch:
  "idx ctx' = idx ctx \<Longrightarrow> csize ctx' = csize ctx \<Longrightarrow> src ctx' = src ctx \<Longrightarrow>
   advances ctx (scan_switch (nextPos ctx) c (s, ctx'))"
  unfolding scan_switch_def
  by (simp add: advances_cases)

lemma advances_iter: "advances ctx (scan_iter (s, ctx))"
  unfolding scan_iter_def
  by (simp add: Let_def advances_switch breakScalar_def)
     (simp add: advances_def scanScalar_ctx)

function scan_loop :: "nat \<Rightarrow> Scanner \<times> Context \<Rightarrow> (nat \<times> Scanner \<times> Context) option" where
  "scan_loop p sc =
     (if next_c (snd sc) then
        (case scan_iter sc of
           Continue sc' \<Rightarrow> scan_loop (nextPos (snd sc)) sc'
         | Return p' sc' \<Rightarrow> Some (p', sc')
         | Panic \<Rightarrow> None)
      else Some (p, fst sc, addBufferedTokenIfExists (snd sc)))"
  by pat_completeness auto
termination
proof (relation "measure (\<lambda>(p, sc). csize (snd sc) - idx (snd sc))")
  show "wf (measure (\<lambda>(p, sc). csize (snd sc) - idx (snd sc)))" by simp
next
  fix p :: nat and sc sc' :: "Scanner \<times> Context"
  assume n: "next_c (snd sc)" and it: "scan_iter sc = Continue sc'"
  have "advances (snd sc) (scan_iter (fst sc, snd sc))" by (rule advances_iter)
  with it have "idx (snd sc) < idx (snd sc')" "csize (snd sc') = csize (snd sc)"
    by (simp_all add: advances_def)
  with n show "((nextPos (snd sc), sc'), (p, sc)) \<in> measure (\<lambda>(p, sc). csize (snd sc) - idx (snd sc))"
    by (simp add: next_c_def)
qed

declare scan_loop.simps [simp del]

text \<open>
  \<^verbatim>\<open>scan\<close>: the named result \<^verbatim>\<open>pos\<close> starts at 0. \<open>None\<close> is the run-time
  panic of a nil position.
\<close>

definition scan :: "Scanner \<times> Context \<Rightarrow> (nat \<times> Scanner \<times> Context) option" where
  "scan sc = scan_loop 0 sc"

definition Init :: "rune list \<Rightarrow> Scanner \<Rightarrow> Scanner" where
  "Init text s = s\<lparr>source := text, sourcePos := 0, line := 1, column := 1, offset := 0,
     prevIndentLevel := 0, prevIndentNum := 0, prevIndentColumn := 0,
     indentLevel := 0, indentNum := 0, isFirstCharAtLine := True\<rparr>"

text \<open>
  \<^verbatim>\<open>Scan\<close> returns the tokens and the error (\<open>None\<close> for \<^verbatim>\<open>nil\<close>), the scanner
  as it leaves it, and the context that the deferred \<^verbatim>\<open>release\<close> puts back into
  the pool. The first argument is the context that \<^verbatim>\<open>ctxPool.Get\<close> hands out.
\<close>

definition Scan ::
  "Context \<Rightarrow> Scanner \<Rightarrow> ((Token list \<times> error option) \<times> Scanner \<times> Context) option" where
  "Scan pooled s =
     (if sourcePos s \<ge> length (source s) then Some (([], Some EOF), s, pooled)
      else
        let ctx = newContext pooled (drop (sourcePos s) (source s))
        in case scan (s, ctx) of
             None \<Rightarrow> None
           | Some (prog, s1, ctx1) \<Rightarrow>
               Some ((tokens ctx1, None), s1\<lparr>sourcePos := sourcePos s1 + prog\<rparr>, ctx1))"

subsection \<open>The scan loop leaves the source and the source position alone\<close>

definition keeps :: "Scanner \<Rightarrow> Flow \<Rightarrow> bool" where
  "keeps s fl = (case fl of
       Continue sc' \<Rightarrow> source (fst sc') = source s \<and> sourcePos (fst sc') = sourcePos s
     | Return p sc' \<Rightarrow> source (fst sc') = source s \<and> sourcePos (fst sc') = sourcePos s
     | Panic \<Rightarrow> True)"

lemma updateIndent_source [simp]:
  "source (updateIndent s ctx c) = source s" "sourcePos (updateIndent s ctx c) = sourcePos s"
  by (simp_all add: updateIndent_def Let_def)

lemma scanScalar_source [simp]:
  "source (fst (scanScalar (s, ctx) c)) = source s"
  "sourcePos (fst (scanScalar (s, ctx) c)) = sourcePos s"
  by (simp_all add: scanScalar_def Let_def)

lemma scanNewLine_source [simp]:
  "source (fst (scanNewLine (s, ctx) c)) = source s"
  "sourcePos (fst (scanNewLine (s, ctx) c)) = sourcePos s"
  by (simp_all add: scanNewLine_def Let_def)

lemma scanScalarHeader_loop_source:
  "scanScalarHeader_loop h s ctx i p = (r, s', ctx') \<Longrightarrow>
     source s' = source s \<and> sourcePos s' = sourcePos s"
proof (induction h s ctx i p rule: scanScalarHeader_loop.induct)
  case (1 header s ctx i p)
  show ?case using "1.prems" "1.IH"
    apply (subst (asm) scanScalarHeader_loop.simps)
    apply (auto simp: Let_def split: if_splits)
    done
qed

lemma scanScalarHeader_source:
  "scanScalarHeader (s, ctx) = (r, s', ctx') \<Longrightarrow>
     source s' = source s \<and> sourcePos s' = sourcePos s"
  by (auto simp: scanScalarHeader_def Let_def dest!: scanScalarHeader_loop_source)

lemma keeps_lbrace:
  "source s = source s0 \<Longrightarrow> sourcePos s = sourcePos s0 \<Longrightarrow> keeps s0 (scan_lbrace p c (s, ctx))"
  by (auto simp: keeps_def scan_lbrace_def scan_default_def Let_def
      split: prod.splits option.splits)

lemma keeps_rbrace:
  "source s = source s0 \<Longrightarrow> sourcePos s = sourcePos s0 \<Longrightarrow> keeps s0 (scan_rbrace p c (s, ctx))"
  by (auto simp: keeps_def scan_rbrace_def scan_default_def Let_def
      split: prod.splits option.splits)

lemma keeps_dot:
  "source s = source s0 \<Longrightarrow> sourcePos s = sourcePos s0 \<Longrightarrow> keeps s0 (scan_dot p c (s, ctx))"
  by (auto simp: keeps_def scan_dot_def scan_default_def Let_def
      split: prod.splits option.splits)

lemma keeps_less:
  "source s = source s0 \<Longrightarrow> sourcePos s = sourcePos s0 \<Longrightarrow> keeps s0 (scan_less p c (s, ctx))"
  by (auto simp: keeps_def scan_less_def scan_default_def Let_def
      split: prod.splits option.splits)

lemma keeps_minus:
  "source s = source s0 \<Longrightarrow> sourcePos s = sourcePos s0 \<Longrightarrow> keeps s0 (scan_minus p c (s, ctx))"
  by (auto simp: keeps_def scan_minus_def scan_default_def Let_def
      split: prod.splits option.splits)

lemma keeps_lbracket:
  "source s = source s0 \<Longrightarrow> sourcePos s = sourcePos s0 \<Longrightarrow> keeps s0 (scan_lbracket p c (s, ctx))"
  by (auto simp: keeps_def scan_lbracket_def scan_default_def Let_def
      split: prod.splits option.splits)

lemma keeps_rbracket:
  "source s = source s0 \<Longrightarrow> sourcePos s = sourcePos s0 \<Longrightarrow> keeps s0 (scan_rbracket p c (s, ctx))"
  by (auto simp: keeps_def scan_rbracket_def scan_default_def Let_def
      split: prod.splits option.splits)

lemma keeps_comma:
  "source s = source s0 \<Longrightarrow> sourcePos s = sourcePos s0 \<Longrightarrow> keeps s0 (scan_comma p c (s, ctx))"
  by (auto simp: keeps_def scan_comma_def scan_default_def Let_def
      split: prod.splits option.splits)

lemma keeps_colon:
  "source s = source s0 \<Longrightarrow> sourcePos s = sourcePos s0 \<Longrightarrow> keeps s0 (scan_colon p c (s, ctx))"
  by (auto simp: keeps_def scan_colon_def scan_default_def Let_def
      split: prod.splits option.splits)

lemma keeps_percent:
  "source s = source s0 \<Longrightarrow> sourcePos s = sourcePos s0 \<Longrightarrow> keeps s0 (scan_percent p c (s, ctx))"
  by (auto simp: keeps_def scan_percent_def scan_default_def Let_def
      split: prod.splits option.splits)

lemma keeps_question:
  "source s = source s0 \<Longrightarrow> sourcePos s = sourcePos s0 \<Longrightarrow> keeps s0 (scan_question p c (s, ctx))"
  by (auto simp: keeps_def scan_question_def scan_default_def Let_def
      split: prod.splits option.splits)

lemma keeps_amp:
  "source s = source s0 \<Longrightarrow> sourcePos s = sourcePos s0 \<Longrightarrow> keeps s0 (scan_amp p c (s, ctx))"
  by (auto simp: keeps_def scan_amp_def scan_default_def Let_def
      split: prod.splits option.splits)

lemma keeps_star:
  "source s = source s0 \<Longrightarrow> sourcePos s = sourcePos s0 \<Longrightarrow> keeps s0 (scan_star p c (s, ctx))"
  by (auto simp: keeps_def scan_star_def scan_default_def Let_def
      split: prod.splits option.splits)

lemma keeps_space:
  "source s = source s0 \<Longrightarrow> sourcePos s = sourcePos s0 \<Longrightarrow> keeps s0 (scan_space p c (s, ctx))"
  by (auto simp: keeps_def scan_space_def scan_default_def Let_def
      split: prod.splits option.splits)

lemma keeps_bang:
  "source s = source s0 \<Longrightarrow> sourcePos s = sourcePos s0 \<Longrightarrow> keeps s0 (scan_bang p c (s, ctx))"
  by (auto simp: keeps_def scan_bang_def scan_default_def Let_def
      split: prod.splits option.splits)

lemma keeps_hash:
  "source s = source s0 \<Longrightarrow> sourcePos s = sourcePos s0 \<Longrightarrow> keeps s0 (scan_hash p c (s, ctx))"
  by (auto simp: keeps_def scan_hash_def scan_default_def Let_def
      split: prod.splits option.splits)

lemma keeps_quote:
  "source s = source s0 \<Longrightarrow> sourcePos s = sourcePos s0 \<Longrightarrow> keeps s0 (scan_quote p c (s, ctx))"
  by (auto simp: keeps_def scan_quote_def scan_default_def Let_def
      split: prod.splits option.splits)

lemma keeps_default:
  "source s = source s0 \<Longrightarrow> sourcePos s = sourcePos s0 \<Longrightarrow> keeps s0 (scan_default c (s, ctx))"
  by (auto simp: keeps_def scan_default_def scan_default_def Let_def
      split: prod.splits option.splits)

lemma keeps_header:
  "source s = source s0 \<Longrightarrow> sourcePos s = sourcePos s0 \<Longrightarrow> keeps s0 (scan_header p c (s, ctx))"
  by (auto simp: keeps_def scan_header_def scan_default_def Let_def
      split: prod.splits option.splits dest!: scanScalarHeader_source)

lemma keeps_newline:
  "source s = source s0 \<Longrightarrow> sourcePos s = sourcePos s0 \<Longrightarrow>
   keeps s0 (Continue (scanNewLine (s, ctx) c))"
  by (simp add: keeps_def)

lemmas keeps_cases = keeps_newline keeps_lbrace keeps_rbrace keeps_dot keeps_less keeps_minus
  keeps_lbracket keeps_rbracket keeps_comma keeps_colon keeps_header keeps_bang
  keeps_percent keeps_question keeps_amp keeps_star keeps_hash keeps_quote
  keeps_space keeps_default

lemma keeps_switch:
  "source s = source s0 \<Longrightarrow> sourcePos s = sourcePos s0 \<Longrightarrow> keeps s0 (scan_switch p c (s, ctx))"
  unfolding scan_switch_def by (simp add: keeps_cases)

lemma keeps_iter: "keeps s (scan_iter (s, ctx))"
  unfolding scan_iter_def
  by (simp add: Let_def keeps_switch breakScalar_def) (simp add: keeps_def)

lemma scan_loop_keeps:
  "scan_loop p sc = Some (prog, s', ctx') \<Longrightarrow>
     source s' = source (fst sc) \<and> sourcePos s' = sourcePos (fst sc)"
proof (induction p sc rule: scan_loop.induct)
  case (1 p sc)
  show ?case
  proof (cases "next_c (snd sc)")
    case False
    with "1.prems" show ?thesis by (subst (asm) scan_loop.simps) auto
  next
    case True
    have k: "keeps (fst sc) (scan_iter sc)" using keeps_iter [of "fst sc" "snd sc"] by simp
    show ?thesis
    proof (cases "scan_iter sc")
      case (Continue sc')
      with "1.prems" True have "scan_loop (nextPos (snd sc)) sc' = Some (prog, s', ctx')"
        by (subst (asm) scan_loop.simps) simp
      from "1.IH" [OF True Continue this] k Continue show ?thesis by (simp add: keeps_def)
    next
      case (Return p' sc')
      with "1.prems" True have "sc' = (s', ctx')" by (subst (asm) scan_loop.simps) simp
      with k Return show ?thesis by (simp add: keeps_def)
    next
      case Panic
      with "1.prems" True show ?thesis by (subst (asm) scan_loop.simps) simp
    qed
  qed
qed

lemma scan_loop_pos:
  "scan_loop p sc = Some (prog, sc') \<Longrightarrow> 0 < p \<or> next_c (snd sc) \<Longrightarrow> 0 < prog"
proof (induction p sc rule: scan_loop.induct)
  case (1 p sc)
  show ?case
  proof (cases "next_c (snd sc)")
    case False
    with "1.prems" show ?thesis by (subst (asm) scan_loop.simps) auto
  next
    case True
    have a: "advances (snd sc) (scan_iter sc)" using advances_iter [of "snd sc" "fst sc"] by simp
    show ?thesis
    proof (cases "scan_iter sc")
      case (Continue sc1)
      with "1.prems" True have "scan_loop (nextPos (snd sc)) sc1 = Some (prog, sc')"
        by (subst (asm) scan_loop.simps) simp
      from "1.IH" [OF True Continue this] show ?thesis by (simp add: nextPos_def)
    next
      case (Return p' sc1)
      with "1.prems" True have "p' = prog" by (subst (asm) scan_loop.simps) simp
      with a Return show ?thesis by (simp add: advances_def)
    next
      case Panic
      with "1.prems" True show ?thesis by (subst (asm) scan_loop.simps) simp
    qed
  qed
qed

lemma Scan_progress:
  assumes "Scan pooled s = Some ((toks, err), s', released)" and "err \<noteq> Some EOF"
  shows "sourcePos s < sourcePos s'" and "source s' = source s"
    and "sourcePos s < length (source s)"
proof -
  from assms have lt: "sourcePos s < length (source s)"
    by (auto simp: Scan_def split: if_splits)
  let ?ctx = "newContext pooled (drop (sourcePos s) (source s))"
  from assms lt obtain prog s1 where sc: "scan (s, ?ctx) = Some (prog, s1, released)"
    and s': "s' = s1\<lparr>sourcePos := sourcePos s1 + prog\<rparr>"
    by (auto simp: Scan_def Let_def split: if_splits option.splits)
  have nx: "next_c ?ctx" using lt
    by (simp add: next_c_def newContext_def reset_def resetBuffer_def)
  from sc have k: "source s1 = source s \<and> sourcePos s1 = sourcePos s"
    using scan_loop_keeps [of 0 "(s, ?ctx)" prog s1 released] by (simp add: scan_def)
  from sc nx have "0 < prog"
    using scan_loop_pos [of 0 "(s, ?ctx)" prog "(s1, released)"] by (simp add: scan_def)
  with k s' show "sourcePos s < sourcePos s'" "source s' = source s" by simp_all
  show "sourcePos s < length (source s)" by (rule lt)
qed

section \<open>Tokenize (the lexer package)\<close>

text \<open>
  \<^verbatim>\<open>Tokenize\<close> calls \<^verbatim>\<open>Scan\<close> until it returns \<^verbatim>\<open>io.EOF\<close>. The pool is one
  slot here: each \<^verbatim>\<open>Scan\<close> gets the context that the \<^verbatim>\<open>Scan\<close> before it
  released, the first one gets \<open>pooled\<close>. \<^verbatim>\<open>Tokens.Add\<close> of the token package
  (not among the sources) is modelled from the spec as appending to the ordered
  sequence of tokens. \<open>None\<close> is a run-time panic. The loop also hands back the
  scanner and the pooled context as the last \<^verbatim>\<open>Scan\<close> left them, for callers that
  keep the \<^verbatim>\<open>Scanner\<close> value and call \<^verbatim>\<open>Init\<close> on it again.
\<close>

function Tokenize_loop ::
  "Context \<Rightarrow> Scanner \<Rightarrow> Token list \<Rightarrow> (Token list \<times> Scanner \<times> Context) option" where
  "Tokenize_loop pooled s toks =
     (case Scan pooled s of
        None \<Rightarrow> None
      | Some ((subTokens, err), s', released) \<Rightarrow>
          if err = Some EOF then Some (toks, s', released)
          else Tokenize_loop released s' (toks @ subTokens))"
  by pat_completeness auto
termination
proof (relation "measure (\<lambda>(pooled, s, toks). length (source s) - sourcePos s)")
  show "wf (measure (\<lambda>(pooled, s, toks). length (source s) - sourcePos s))" by simp
next
  fix pooled s toks x y subTokens err z s' released
  assume "Scan pooled s = Some x" "(y, z) = x" "(subTokens, err) = y" "(s', released) = z"
    "err \<noteq> Some EOF"
  then have sc: "Scan pooled s = Some ((subTokens, err), s', released)" by simp
  from Scan_progress [OF sc \<open>err \<noteq> Some EOF\<close>]
  show "((released, s', toks @ subTokens), (pooled, s, toks))
          \<in> measure (\<lambda>(pooled, s, toks). length (source s) - sourcePos s)"
    by simp
qed

declare Tokenize_loop.simps [simp del]

text \<open>
  \<open>Tokenize_with s pooled text\<close> is the loop on a scanner value \<open>s\<close> that is
  initialised with \<^verbatim>\<open>s.Init(text)\<close>; \<^verbatim>\<open>Tokenize\<close> declares a new scanner
  (\<open>zeroScanner\<close>).
\<close>

definition Tokenize_with ::
  "Scanner \<Rightarrow> Context \<Rightarrow> rune list \<Rightarrow> (Token list \<times> Scanner \<times> Context) option" where
  "Tokenize_with s pooled text = Tokenize_loop pooled (Init text s) []"

definition Tokenize_from :: "Context \<Rightarrow> rune list \<Rightarrow> Token list option" where
  "Tokenize_from pooled text = map_option fst (Tokenize_with zeroScanner pooled text)"

definition Tokenize :: "rune list \<Rightarrow> Token list option" where
  "Tokenize text = Tokenize_from createContext text"

subsection \<open>The scan loop never dereferences a nil position\<close>

definition wfctx :: "Context \<Rightarrow> bool" where
  "wfctx c = (if buf c = [] then True else bufPos c \<noteq> None)"

definition sound :: "Flow \<Rightarrow> bool" where
  "sound fl = (case fl of Continue sc' \<Rightarrow> wfctx (snd sc') | Return p sc' \<Rightarrow> True | Panic \<Rightarrow> False)"

lemma wfctx_addOriginBuf [simp]: "wfctx (addOriginBuf r c) = wfctx c"
  by (simp add: wfctx_def addOriginBuf_def Let_def)

lemma wfctx_progress [simp]: "wfctx (progress n c) = wfctx c"
  by (simp add: wfctx_def progress_def)

lemma wfctx_addToken [simp]: "wfctx (addToken t c) = wfctx c"
  by (simp add: wfctx_def addToken_def split: option.splits)

lemma wfctx_addBuf [simp]: "wfctx c \<Longrightarrow> wfctx (addBuf r p c)"
  by (auto simp: wfctx_def addBuf_def Let_def split: if_splits)

lemma wfctx_resetBuffer [simp]: "wfctx (resetBuffer c)"
  by (simp add: wfctx_def resetBuffer_def)

lemma wfctx_breakScalar_ctx [simp]: "wfctx (breakScalar_ctx c) = wfctx c"
  by (simp add: wfctx_def breakScalar_ctx_def)

lemma wfctx_rawFolded [simp]: "wfctx (c\<lparr>isRawFolded := b\<rparr>) = wfctx c"
  by (simp add: wfctx_def)

lemma wfctx_singleLine [simp]: "wfctx (c\<lparr>isSingleLine := b\<rparr>) = wfctx c"
  by (simp add: wfctx_def)

lemma wfctx_bufferedToken [simp]: "wfctx c \<Longrightarrow> wfctx (snd (bufferedToken c))"
  by (simp add: bufferedToken_def Let_def)

lemma wfctx_addBufferedTokenIfExists [simp]: "wfctx c \<Longrightarrow> wfctx (addBufferedTokenIfExists c)"
  by (simp add: addBufferedTokenIfExists_def bufferedToken_def Let_def)

lemma wfctx_removeRightSpaceFromBuf [simp]:
  "wfctx c \<Longrightarrow> wfctx (snd (removeRightSpaceFromBuf c))"
  by (auto simp: wfctx_def removeRightSpaceFromBuf_def bufferedSrc_def Let_def split: if_splits)

lemma wfctx_newContext [simp]: "wfctx (newContext pooled text)"
  by (simp add: newContext_def reset_def wfctx_def resetBuffer_def)

lemma bufferedToken_Position:
  "wfctx c \<Longrightarrow> bufferedToken c = (Some tk, c') \<Longrightarrow> Position tk \<noteq> None"
  by (auto simp: bufferedToken_def bufferedSrc_def wfctx_def Let_def token_String_def
      token_New_def mkToken_def split: if_splits)

lemma wfctx_scanScalar: "wfctx ctx \<Longrightarrow> wfctx (snd (scanScalar (s, ctx) c))"
  by (simp add: scanScalar_def Let_def)

lemma wfctx_scanNewLine: "wfctx ctx \<Longrightarrow> wfctx (snd (scanNewLine (s, ctx) c))"
  by (simp add: scanNewLine_def Let_def)

lemma scanScalarHeader_loop_wf:
  "scanScalarHeader_loop h s ctx i p = ((n, None), s', ctx') \<Longrightarrow> wfctx ctx'"
proof (induction h s ctx i p rule: scanScalarHeader_loop.induct)
  case (1 header s ctx i p)
  show ?case using "1.prems" "1.IH"
    apply (subst (asm) scanScalarHeader_loop.simps)
    apply (auto simp: Let_def wfctx_def resetBuffer_def split: if_splits)
    done
qed

lemma scanScalarHeader_wf:
  "scanScalarHeader (s, ctx) = ((n, None), s', ctx') \<Longrightarrow> wfctx ctx'"
  by (auto simp: scanScalarHeader_def Let_def dest!: scanScalarHeader_loop_wf)

lemma sound_lbrace: "wfctx ctx \<Longrightarrow> sound (scan_lbrace p c (s, ctx))"
  by (auto simp: sound_def scan_lbrace_def scan_default_def Let_def token_SequenceEntry_def mkToken_def
      split: prod.splits option.splits)

lemma sound_rbrace: "wfctx ctx \<Longrightarrow> sound (scan_rbrace p c (s, ctx))"
  by (auto simp: sound_def scan_rbrace_def scan_default_def Let_def token_SequenceEntry_def mkToken_def
      split: prod.splits option.splits)

lemma sound_dot: "wfctx ctx \<Longrightarrow> sound (scan_dot p c (s, ctx))"
  by (auto simp: sound_def scan_dot_def scan_default_def Let_def token_SequenceEntry_def mkToken_def
      split: prod.splits option.splits)

lemma sound_less: "wfctx ctx \<Longrightarrow> sound (scan_less p c (s, ctx))"
  by (auto simp: sound_def scan_less_def scan_default_def Let_def token_SequenceEntry_def mkToken_def
      split: prod.splits option.splits)

lemma sound_minus: "wfctx ctx \<Longrightarrow> sound (scan_minus p c (s, ctx))"
  by (auto simp: sound_def scan_minus_def scan_default_def Let_def token_SequenceEntry_def mkToken_def
      split: prod.splits option.splits)

lemma sound_lbracket: "wfctx ctx \<Longrightarrow> sound (scan_lbracket p c (s, ctx))"
  by (auto simp: sound_def scan_lbracket_def scan_default_def Let_def token_SequenceEntry_def mkToken_def
      split: prod.splits option.splits)

lemma sound_rbracket: "wfctx ctx \<Longrightarrow> sound (scan_rbracket p c (s, ctx))"
  by (auto simp: sound_def scan_rbracket_def scan_default_def Let_def token_SequenceEntry_def mkToken_def
      split: prod.splits option.splits)

lemma sound_comma: "wfctx ctx \<Longrightarrow> sound (scan_comma p c (s, ctx))"
  by (auto simp: sound_def scan_comma_def scan_default_def Let_def token_SequenceEntry_def mkToken_def
      split: prod.splits option.splits)

lemma sound_percent: "wfctx ctx \<Longrightarrow> sound (scan_percent p c (s, ctx))"
  by (auto simp: sound_def scan_percent_def scan_default_def Let_def token_SequenceEntry_def mkToken_def
      split: prod.splits option.splits)

lemma sound_question: "wfctx ctx \<Longrightarrow> sound (scan_question p c (s, ctx))"
  by (auto simp: sound_def scan_question_def scan_default_def Let_def token_SequenceEntry_def mkToken_def
      split: prod.splits option.splits)

lemma sound_amp: "wfctx ctx \<Longrightarrow> sound (scan_amp p c (s, ctx))"
  by (auto simp: sound_def scan_amp_def scan_default_def Let_def token_SequenceEntry_def mkToken_def
      split: prod.splits option.splits)

lemma sound_star: "wfctx ctx \<Longrightarrow> sound (scan_star p c (s, ctx))"
  by (auto simp: sound_def scan_star_def scan_default_def Let_def token_SequenceEntry_def mkToken_def
      split: prod.splits option.splits)

lemma sound_space: "wfctx ctx \<Longrightarrow> sound (scan_space p c (s, ctx))"
  by (auto simp: sound_def scan_space_def scan_default_def Let_def token_SequenceEntry_def mkToken_def
      split: prod.splits option.splits)

lemma sound_bang: "wfctx ctx \<Longrightarrow> sound (scan_bang p c (s, ctx))"
  by (auto simp: sound_def scan_bang_def scan_default_def Let_def token_SequenceEntry_def mkToken_def
      split: prod.splits option.splits)

lemma sound_hash: "wfctx ctx \<Longrightarrow> sound (scan_hash p c (s, ctx))"
  by (auto simp: sound_def scan_hash_def scan_default_def Let_def token_SequenceEntry_def mkToken_def
      split: prod.splits option.splits)

lemma sound_quote: "wfctx ctx \<Longrightarrow> sound (scan_quote p c (s, ctx))"
  by (auto simp: sound_def scan_quote_def scan_default_def Let_def token_SequenceEntry_def mkToken_def
      split: prod.splits option.splits)

lemma sound_default: "wfctx ctx \<Longrightarrow> sound (scan_default c (s, ctx))"
  by (auto simp: sound_def scan_default_def Let_def token_SequenceEntry_def mkToken_def
      split: prod.splits option.splits)

lemma sound_colon: "wfctx ctx \<Longrightarrow> sound (scan_colon p c (s, ctx))"
  by (auto simp: sound_def scan_colon_def scan_default_def Let_def
      split: prod.splits option.splits dest: bufferedToken_Position)

lemma sound_header: "wfctx ctx \<Longrightarrow> sound (scan_header p c (s, ctx))"
  by (auto simp: sound_def scan_header_def scan_default_def Let_def
      split: prod.splits option.splits dest!: scanScalarHeader_wf)

lemma sound_newline: "wfctx ctx \<Longrightarrow> sound (Continue (scanNewLine (s, ctx) c))"
  by (simp add: sound_def wfctx_scanNewLine)

lemmas sound_cases = sound_newline sound_lbrace sound_rbrace sound_dot sound_less sound_minus
  sound_lbracket sound_rbracket sound_comma sound_colon sound_header sound_bang
  sound_percent sound_question sound_amp sound_star sound_hash sound_quote
  sound_space sound_default

lemma sound_switch: "wfctx ctx \<Longrightarrow> sound (scan_switch p c (s, ctx))"
  unfolding scan_switch_def by (simp add: sound_cases)

lemma sound_iter: "wfctx ctx \<Longrightarrow> sound (scan_iter (s, ctx))"
  unfolding scan_iter_def
  by (simp add: Let_def sound_switch breakScalar_def) (simp add: sound_def wfctx_scanScalar)

lemma scan_loop_returns: "wfctx (snd sc) \<Longrightarrow> scan_loop p sc \<noteq> None"
proof (induction p sc rule: scan_loop.induct)
  case (1 p sc)
  show ?case
  proof (cases "next_c (snd sc)")
    case False
    then show ?thesis by (subst scan_loop.simps) simp
  next
    case True
    have sd: "sound (scan_iter sc)" using sound_iter [of "snd sc" "fst sc"] "1.prems" by simp
    show ?thesis
    proof (cases "scan_iter sc")
      case (Continue sc')
      with sd have "wfctx (snd sc')" by (simp add: sound_def)
      from "1.IH" [OF True Continue this] True Continue show ?thesis
        by (subst scan_loop.simps) simp
    next
      case (Return p' sc')
      with True show ?thesis by (subst scan_loop.simps) simp
    next
      case Panic
      with sd show ?thesis by (simp add: sound_def)
    qed
  qed
qed

lemma Scan_returns: "Scan pooled s \<noteq> None"
  using scan_loop_returns [of "(s, newContext pooled (drop (sourcePos s) (source s)))" 0]
  by (auto simp: Scan_def Let_def scan_def split: option.splits)

lemma Tokenize_loop_returns: "Tokenize_loop pooled s toks \<noteq> None"
proof (induction pooled s toks rule: Tokenize_loop.induct)
  case (1 pooled s toks)
  obtain subTokens err s' released where sc: "Scan pooled s = Some ((subTokens, err), s', released)"
    using Scan_returns [of pooled s] by (cases "Scan pooled s") auto
  show ?case
  proof (cases "err = Some EOF")
    case True
    with sc show ?thesis by (subst Tokenize_loop.simps) simp
  next
    case False
    from "1.IH" [OF sc refl refl refl False] sc False show ?thesis
      by (subst Tokenize_loop.simps) simp
  qed
qed

subsection \<open>The nesting counters follow the flow tokens\<close>

definition mapDelta :: "Token \<Rightarrow> int" where
  "mapDelta tk = (if Type tk = MappingStartType then 1
                  else if Type tk = MappingEndType then - 1 else 0)"

definition seqDelta :: "Token \<Rightarrow> int" where
  "seqDelta tk = (if Type tk = SequenceStartType then 1
                  else if Type tk = SequenceEndType then - 1 else 0)"

definition mapBalance :: "Token list \<Rightarrow> int" where
  "mapBalance ts = sum_list (map mapDelta ts)"

definition seqBalance :: "Token list \<Rightarrow> int" where
  "seqBalance ts = sum_list (map seqDelta ts)"

definition mapLevel :: "Scanner \<times> Context \<Rightarrow> int" where
  "mapLevel sc = startedFlowMapNum (fst sc) - mapBalance (tokens (snd sc))"

definition seqLevel :: "Scanner \<times> Context \<Rightarrow> int" where
  "seqLevel sc = startedFlowSequenceNum (fst sc) - seqBalance (tokens (snd sc))"

definition tracks_at :: "int \<Rightarrow> int \<Rightarrow> Flow \<Rightarrow> bool" where
  "tracks_at m q fl = (case fl of
       Continue sc' \<Rightarrow> mapLevel sc' = m \<and> seqLevel sc' = q
     | Return p sc' \<Rightarrow> mapLevel sc' = m \<and> seqLevel sc' = q
     | Panic \<Rightarrow> True)"

lemma balance_append [simp]:
  "mapBalance (ts @ [t]) = mapBalance ts + mapDelta t"
  "seqBalance (ts @ [t]) = seqBalance ts + seqDelta t"
  by (simp_all add: mapBalance_def seqBalance_def)

lemma balance_Nil [simp]: "mapBalance [] = 0" "seqBalance [] = 0"
  by (simp_all add: mapBalance_def seqBalance_def)

lemma balance_Cons [simp]:
  "mapBalance (t # ts) = mapDelta t + mapBalance ts"
  "seqBalance (t # ts) = seqDelta t + seqBalance ts"
  by (simp_all add: mapBalance_def seqBalance_def)

lemma balance_append2:
  "mapBalance (ts @ us) = mapBalance ts + mapBalance us"
  "seqBalance (ts @ us) = seqBalance ts + seqBalance us"
  by (simp_all add: mapBalance_def seqBalance_def)

lemma delta_mkToken [simp]:
  "mapDelta (mkToken t v org p) = (if t = MappingStartType then 1
                  else if t = MappingEndType then - 1 else 0)"
  "seqDelta (mkToken t v org p) = (if t = SequenceStartType then 1
                  else if t = SequenceEndType then - 1 else 0)"
  by (simp_all add: mapDelta_def seqDelta_def mkToken_def)

lemmas token_defs = token_New_def token_String_def token_SingleQuote_def token_DoubleQuote_def
  token_Template_def token_Tag_def token_Comment_def token_Literal_def token_Folded_def
  token_MappingStart_def token_MappingEnd_def token_SequenceStart_def token_SequenceEnd_def
  token_CollectEntry_def token_SequenceEntry_def token_MergeKey_def token_Anchor_def
  token_Alias_def token_MappingValue_def token_MappingKey_def token_Directive_def
  token_DocumentHeader_def token_DocumentEnd_def

lemma tokens_fields [simp]:
  "tokens (addOriginBuf r c) = tokens c" "tokens (addBuf r p c) = tokens c"
  "tokens (progress n c) = tokens c" "tokens (resetBuffer c) = tokens c"
  "tokens (breakScalar_ctx c) = tokens c" "tokens (snd (removeRightSpaceFromBuf c)) = tokens c"
  "tokens (addToken None c) = tokens c" "tokens (addToken (Some t) c) = tokens c @ [t]"
  by (simp_all add: addOriginBuf_def addBuf_def progress_def resetBuffer_def breakScalar_ctx_def
      removeRightSpaceFromBuf_def addToken_def Let_def)

lemma tokens_appendOriginBuf [simp]: "tokens (appendOriginBuf rs c) = tokens c"
  unfolding appendOriginBuf_def by (induction rs arbitrary: c) simp_all

definition neutral :: "Token option \<Rightarrow> bool" where
  "neutral tk = (case tk of None \<Rightarrow> True | Some t \<Rightarrow> mapDelta t = 0 \<and> seqDelta t = 0)"

lemma neutral_simps [simp]:
  "neutral None" "neutral (Some t) = (mapDelta t = 0 \<and> seqDelta t = 0)"
  by (simp_all add: neutral_def)

lemma bufferedToken_tokens:
  "tokens (snd (bufferedToken c)) = tokens c" "neutral (fst (bufferedToken c))"
  by (simp_all add: bufferedToken_def Let_def token_defs)

lemma addBufferedTokenIfExists_balance [simp]:
  "mapBalance (tokens (addBufferedTokenIfExists c)) = mapBalance (tokens c)"
  "seqBalance (tokens (addBufferedTokenIfExists c)) = seqBalance (tokens c)"
  by (simp_all add: addBufferedTokenIfExists_def bufferedToken_def Let_def token_defs)


lemma scanTemplateString_loop_tokens: "tokens (scanTemplateString_loop ctx) = tokens ctx"
proof (induction ctx rule: scanTemplateString_loop.induct)
  case (1 ctx)
  show ?case using "1.IH"
    by (subst scanTemplateString_loop.simps) (auto simp: Let_def)
qed


lemma scanTemplate_loop_tokens:
  "scanTemplate_loop s p ctx = (tk, ctx') \<Longrightarrow> tokens ctx' = tokens ctx \<and> neutral tk"
proof (induction s p ctx rule: scanTemplate_loop.induct)
  case (1 s p ctx)
  show ?case using "1.prems" "1.IH"
    apply (subst (asm) scanTemplate_loop.simps)
    apply (auto simp: Let_def token_defs scanTemplateString_def scanTemplateString_loop_tokens
        split: if_splits)
    done
qed


lemma scanTag_loop_tokens:
  "scanTag_loop s ctx i p = ((tk, n), ctx') \<Longrightarrow> tokens ctx' = tokens ctx \<and> neutral tk"
proof (induction s ctx i p rule: scanTag_loop.induct)
  case (1 s ctx i p)
  note IH = "1.IH" [OF _ refl refl]
  show ?case using "1.prems" IH
    apply (subst (asm) scanTag_loop.simps)
    apply (auto simp: Let_def token_defs split: if_splits)
    done
qed


lemma scanComment_loop_tokens:
  "scanComment_loop s ctx i p = ((tk, n), ctx') \<Longrightarrow> tokens ctx' = tokens ctx \<and> neutral tk"
proof (induction s ctx i p rule: scanComment_loop.induct)
  case (1 s ctx i p)
  note IH = "1.IH" [OF _ refl refl]
  show ?case using "1.prems" IH
    apply (subst (asm) scanComment_loop.simps)
    apply (auto simp: Let_def token_defs split: if_splits)
    done
qed



lemma scanSingleQuote_loop_tokens:
  "scanSingleQuote_loop s ctx n f v = ((tk, m), ctx') \<Longrightarrow> tokens ctx' = tokens ctx \<and> neutral tk"
proof (induction s ctx n f v rule: scanSingleQuote_loop.induct)
  case (1 s ctx n f v)
  note IH = "1.IH"(1,2,4) [OF _ refl refl] "1.IH"(3) [OF _ refl refl _ _ _ refl]
  show ?case using "1.prems" IH
    apply (subst (asm) scanSingleQuote_loop.simps)
    apply (auto simp: Let_def token_defs split: if_splits)
    done
qed


lemma scanDoubleQuote_loop_tokens:
  "scanDoubleQuote_loop s ctx n f v = ((tk, m), ctx') \<Longrightarrow> tokens ctx' = tokens ctx \<and> neutral tk"
proof (induction s ctx n f v rule: scanDoubleQuote_loop.induct)
  case (1 s ctx n f v)
  note IH = "1.IH"(1,2,5) [OF _ refl refl]
    "1.IH"(3,4) [OF _ refl refl _ _ _ prod.collapse]
  show ?case using "1.prems" IH
    apply (subst (asm) scanDoubleQuote_loop.simps)
    apply (auto simp: Let_def token_defs split: if_splits prod.splits)
    done
qed

lemma scanQuote_tokens:
  "scanQuote s ctx c = ((tk, m), ctx') \<Longrightarrow> tokens ctx' = tokens ctx \<and> neutral tk"
  by (auto simp: scanQuote_def scanSingleQuote_def scanDoubleQuote_def split: if_splits
      dest!: scanSingleQuote_loop_tokens scanDoubleQuote_loop_tokens)

lemma scanScalarHeader_loop_balance:
  "scanScalarHeader_loop h s ctx i p = (r, s', ctx') \<Longrightarrow>
     startedFlowMapNum s' = startedFlowMapNum s
     \<and> startedFlowSequenceNum s' = startedFlowSequenceNum s
     \<and> mapBalance (tokens ctx') = mapBalance (tokens ctx)
     \<and> seqBalance (tokens ctx') = seqBalance (tokens ctx)"
proof (induction h s ctx i p rule: scanScalarHeader_loop.induct)
  case (1 header s ctx i p)
  note IH = "1.IH"(1) [OF _ refl refl _ refl refl] "1.IH"(2) [OF _ refl refl]
  show ?case using "1.prems" IH
    apply (subst (asm) scanScalarHeader_loop.simps)
    apply (auto simp: Let_def token_defs split: if_splits)
    done
qed


lemma scanScalarHeader_balance:
  "scanScalarHeader (s, ctx) = (r, s', ctx') \<Longrightarrow>
     startedFlowMapNum s' = startedFlowMapNum s
     \<and> startedFlowSequenceNum s' = startedFlowSequenceNum s
     \<and> mapBalance (tokens ctx') = mapBalance (tokens ctx)
     \<and> seqBalance (tokens ctx') = seqBalance (tokens ctx)"
  by (auto simp: scanScalarHeader_def Let_def dest!: scanScalarHeader_loop_balance)

lemma scanTemplate_tokens:
  "scanTemplate s ctx = (tk, ctx') \<Longrightarrow> tokens ctx' = tokens ctx \<and> neutral tk"
  by (auto simp: scanTemplate_def dest!: scanTemplate_loop_tokens)

lemma scanTag_tokens:
  "scanTag s ctx = ((tk, n), ctx') \<Longrightarrow> tokens ctx' = tokens ctx \<and> neutral tk"
  by (auto simp: scanTag_def dest!: scanTag_loop_tokens)

lemma scanComment_tokens:
  "scanComment s ctx = ((tk, n), ctx') \<Longrightarrow> tokens ctx' = tokens ctx \<and> neutral tk"
  by (auto simp: scanComment_def dest!: scanComment_loop_tokens)

lemma balance_addToken [simp]:
  "neutral tk \<Longrightarrow> mapBalance (tokens (addToken tk c)) = mapBalance (tokens c)"
  "neutral tk \<Longrightarrow> seqBalance (tokens (addToken tk c)) = seqBalance (tokens c)"
  by (cases tk; simp)+

lemma level_scanScalar:
  "mapLevel (scanScalar (s, ctx) c) = mapLevel (s, ctx)"
  "seqLevel (scanScalar (s, ctx) c) = seqLevel (s, ctx)"
  by (simp_all add: mapLevel_def seqLevel_def scanScalar_def Let_def token_defs)

lemma level_scanNewLine:
  "mapLevel (scanNewLine (s, ctx) c) = mapLevel (s, ctx)"
  "seqLevel (scanNewLine (s, ctx) c) = seqLevel (s, ctx)"
  by (simp_all add: mapLevel_def seqLevel_def scanNewLine_def Let_def)

lemma updateIndent_flow [simp]:
  "startedFlowMapNum (updateIndent s ctx c) = startedFlowMapNum s"
  "startedFlowSequenceNum (updateIndent s ctx c) = startedFlowSequenceNum s"
  by (simp_all add: updateIndent_def Let_def)

lemma tracks_rbrace:
  "mapLevel (s, ctx) = m \<Longrightarrow> seqLevel (s, ctx) = q \<Longrightarrow>
   tracks_at m q (scan_rbrace p c (s, ctx))"
  by (auto simp: tracks_at_def mapLevel_def seqLevel_def scan_rbrace_def scan_default_def Let_def
      token_defs addBufferedTokenIfExists_def [symmetric] split: prod.splits option.splits)

lemma tracks_dot:
  "mapLevel (s, ctx) = m \<Longrightarrow> seqLevel (s, ctx) = q \<Longrightarrow>
   tracks_at m q (scan_dot p c (s, ctx))"
  by (auto simp: tracks_at_def mapLevel_def seqLevel_def scan_dot_def scan_default_def Let_def
      token_defs addBufferedTokenIfExists_def [symmetric] split: prod.splits option.splits)

lemma tracks_less:
  "mapLevel (s, ctx) = m \<Longrightarrow> seqLevel (s, ctx) = q \<Longrightarrow>
   tracks_at m q (scan_less p c (s, ctx))"
  by (auto simp: tracks_at_def mapLevel_def seqLevel_def scan_less_def scan_default_def Let_def
      token_defs addBufferedTokenIfExists_def [symmetric] split: prod.splits option.splits)

lemma tracks_minus:
  "mapLevel (s, ctx) = m \<Longrightarrow> seqLevel (s, ctx) = q \<Longrightarrow>
   tracks_at m q (scan_minus p c (s, ctx))"
  by (auto simp: tracks_at_def mapLevel_def seqLevel_def scan_minus_def scan_default_def Let_def
      token_defs addBufferedTokenIfExists_def [symmetric] split: prod.splits option.splits)

lemma tracks_lbracket:
  "mapLevel (s, ctx) = m \<Longrightarrow> seqLevel (s, ctx) = q \<Longrightarrow>
   tracks_at m q (scan_lbracket p c (s, ctx))"
  by (auto simp: tracks_at_def mapLevel_def seqLevel_def scan_lbracket_def scan_default_def Let_def
      token_defs addBufferedTokenIfExists_def [symmetric] split: prod.splits option.splits)

lemma tracks_rbracket:
  "mapLevel (s, ctx) = m \<Longrightarrow> seqLevel (s, ctx) = q \<Longrightarrow>
   tracks_at m q (scan_rbracket p c (s, ctx))"
  by (auto simp: tracks_at_def mapLevel_def seqLevel_def scan_rbracket_def scan_default_def Let_def
      token_defs addBufferedTokenIfExists_def [symmetric] split: prod.splits option.splits)

lemma tracks_comma:
  "mapLevel (s, ctx) = m \<Longrightarrow> seqLevel (s, ctx) = q \<Longrightarrow>
   tracks_at m q (scan_comma p c (s, ctx))"
  by (auto simp: tracks_at_def mapLevel_def seqLevel_def scan_comma_def scan_default_def Let_def
      token_defs addBufferedTokenIfExists_def [symmetric] split: prod.splits option.splits)

lemma tracks_percent:
  "mapLevel (s, ctx) = m \<Longrightarrow> seqLevel (s, ctx) = q \<Longrightarrow>
   tracks_at m q (scan_percent p c (s, ctx))"
  by (auto simp: tracks_at_def mapLevel_def seqLevel_def scan_percent_def scan_default_def Let_def
      token_defs addBufferedTokenIfExists_def [symmetric] split: prod.splits option.splits)

lemma tracks_question:
  "mapLevel (s, ctx) = m \<Longrightarrow> seqLevel (s, ctx) = q \<Longrightarrow>
   tracks_at m q (scan_question p c (s, ctx))"
  by (auto simp: tracks_at_def mapLevel_def seqLevel_def scan_question_def scan_default_def Let_def
      token_defs addBufferedTokenIfExists_def [symmetric] split: prod.splits option.splits)

lemma tracks_amp:
  "mapLevel (s, ctx) = m \<Longrightarrow> seqLevel (s, ctx) = q \<Longrightarrow>
   tracks_at m q (scan_amp p c (s, ctx))"
  by (auto simp: tracks_at_def mapLevel_def seqLevel_def scan_amp_def scan_default_def Let_def
      token_defs addBufferedTokenIfExists_def [symmetric] split: prod.splits option.splits)

lemma tracks_star:
  "mapLevel (s, ctx) = m \<Longrightarrow> seqLevel (s, ctx) = q \<Longrightarrow>
   tracks_at m q (scan_star p c (s, ctx))"
  by (auto simp: tracks_at_def mapLevel_def seqLevel_def scan_star_def scan_default_def Let_def
      token_defs addBufferedTokenIfExists_def [symmetric] split: prod.splits option.splits)

lemma tracks_space:
  "mapLevel (s, ctx) = m \<Longrightarrow> seqLevel (s, ctx) = q \<Longrightarrow>
   tracks_at m q (scan_space p c (s, ctx))"
  by (auto simp: tracks_at_def mapLevel_def seqLevel_def scan_space_def scan_default_def Let_def
      token_defs addBufferedTokenIfExists_def [symmetric] split: prod.splits option.splits)

lemma tracks_default:
  "mapLevel (s, ctx) = m \<Longrightarrow> seqLevel (s, ctx) = q \<Longrightarrow>
   tracks_at m q (scan_default c (s, ctx))"
  by (auto simp: tracks_at_def mapLevel_def seqLevel_def scan_default_def scan_default_def Let_def
      token_defs addBufferedTokenIfExists_def [symmetric] split: prod.splits option.splits)


lemma tracks_lbrace:
  "mapLevel (s, ctx) = m \<Longrightarrow> seqLevel (s, ctx) = q \<Longrightarrow> tracks_at m q (scan_lbrace p c (s, ctx))"
  by (auto simp: tracks_at_def mapLevel_def seqLevel_def scan_lbrace_def scan_default_def Let_def
      token_defs split: prod.splits option.splits dest!: scanTemplate_tokens)

lemma tracks_colon:
  "mapLevel (s, ctx) = m \<Longrightarrow> seqLevel (s, ctx) = q \<Longrightarrow> tracks_at m q (scan_colon p c (s, ctx))"
  using bufferedToken_tokens [of ctx]
  by (auto simp: tracks_at_def mapLevel_def seqLevel_def scan_colon_def scan_default_def Let_def
      token_defs balance_append2 split: prod.splits option.splits)

lemma tracks_header:
  "mapLevel (s, ctx) = m \<Longrightarrow> seqLevel (s, ctx) = q \<Longrightarrow> tracks_at m q (scan_header p c (s, ctx))"
  by (auto simp: tracks_at_def mapLevel_def seqLevel_def scan_header_def scan_default_def Let_def
      split: prod.splits option.splits dest!: scanScalarHeader_balance)

lemma tracks_bang:
  "mapLevel (s, ctx) = m \<Longrightarrow> seqLevel (s, ctx) = q \<Longrightarrow> tracks_at m q (scan_bang p c (s, ctx))"
  by (auto simp: tracks_at_def mapLevel_def seqLevel_def scan_bang_def scan_default_def Let_def
      split: prod.splits option.splits dest!: scanTag_tokens)

lemma tracks_hash:
  "mapLevel (s, ctx) = m \<Longrightarrow> seqLevel (s, ctx) = q \<Longrightarrow> tracks_at m q (scan_hash p c (s, ctx))"
  by (auto simp: tracks_at_def mapLevel_def seqLevel_def scan_hash_def scan_default_def Let_def
      split: prod.splits option.splits dest!: scanComment_tokens)

lemma tracks_quote:
  "mapLevel (s, ctx) = m \<Longrightarrow> seqLevel (s, ctx) = q \<Longrightarrow> tracks_at m q (scan_quote p c (s, ctx))"
  by (auto simp: tracks_at_def mapLevel_def seqLevel_def scan_quote_def scan_default_def Let_def
      split: prod.splits option.splits dest!: scanQuote_tokens)

lemma tracks_newline:
  "mapLevel (s, ctx) = m \<Longrightarrow> seqLevel (s, ctx) = q \<Longrightarrow>
   tracks_at m q (Continue (scanNewLine (s, ctx) c))"
  by (simp add: tracks_at_def level_scanNewLine)

lemmas tracks_cases = tracks_newline tracks_lbrace tracks_rbrace tracks_dot tracks_less
  tracks_minus tracks_lbracket tracks_rbracket tracks_comma tracks_colon tracks_header
  tracks_bang tracks_percent tracks_question tracks_amp tracks_star tracks_hash tracks_quote
  tracks_space tracks_default

lemma tracks_switch:
  "mapLevel (s, ctx) = m \<Longrightarrow> seqLevel (s, ctx) = q \<Longrightarrow> tracks_at m q (scan_switch p c (s, ctx))"
  unfolding scan_switch_def by (simp add: tracks_cases)

lemma tracks_scalar:
  "mapLevel (s, ctx) = m \<Longrightarrow> seqLevel (s, ctx) = q \<Longrightarrow>
   tracks_at m q (Continue (scanScalar (s, ctx) c))"
  by (simp add: tracks_at_def level_scanScalar)

lemma tracks_iter: "tracks_at (mapLevel (s, ctx)) (seqLevel (s, ctx)) (scan_iter (s, ctx))"
  unfolding scan_iter_def
  by (simp add: Let_def breakScalar_def tracks_switch tracks_scalar mapLevel_def seqLevel_def)

lemma scan_loop_tracks:
  "scan_loop p sc = Some (prog, sc') \<Longrightarrow> mapLevel sc' = mapLevel sc \<and> seqLevel sc' = seqLevel sc"
proof (induction p sc rule: scan_loop.induct)
  case (1 p sc)
  show ?case
  proof (cases "next_c (snd sc)")
    case False
    with "1.prems" show ?thesis
      by (subst (asm) scan_loop.simps) (auto simp: mapLevel_def seqLevel_def)
  next
    case True
    have t: "tracks_at (mapLevel sc) (seqLevel sc) (scan_iter sc)"
      using tracks_iter [of "fst sc" "snd sc"] by simp
    show ?thesis
    proof (cases "scan_iter sc")
      case (Continue sc1)
      with "1.prems" True have "scan_loop (nextPos (snd sc)) sc1 = Some (prog, sc')"
        by (subst (asm) scan_loop.simps) simp
      from "1.IH" [OF True Continue this] t Continue show ?thesis by (simp add: tracks_at_def)
    next
      case (Return p' sc1)
      with "1.prems" True have "sc1 = sc'" by (subst (asm) scan_loop.simps) simp
      with t Return show ?thesis by (simp add: tracks_at_def)
    next
      case Panic
      with "1.prems" True show ?thesis by (subst (asm) scan_loop.simps) simp
    qed
  qed
qed

lemma Scan_counters:
  assumes "Scan pooled s = Some ((toks, err), s', released)"
  shows "startedFlowMapNum s' = startedFlowMapNum s + mapBalance toks"
    and "startedFlowSequenceNum s' = startedFlowSequenceNum s + seqBalance toks"
proof -
  let ?ctx = "newContext pooled (drop (sourcePos s) (source s))"
  have t0: "tokens ?ctx = []" by (simp add: newContext_def reset_def resetBuffer_def)
  have "startedFlowMapNum s' = startedFlowMapNum s + mapBalance toks
        \<and> startedFlowSequenceNum s' = startedFlowSequenceNum s + seqBalance toks"
  proof (cases "length (source s) \<le> sourcePos s")
    case True
    with assms show ?thesis by (auto simp: Scan_def)
  next
    case False
    with assms obtain prog s1 where sc: "scan (s, ?ctx) = Some (prog, s1, released)"
      and s': "s' = s1\<lparr>sourcePos := sourcePos s1 + prog\<rparr>" and toks: "toks = tokens released"
      by (auto simp: Scan_def Let_def split: if_splits option.splits)
    from scan_loop_tracks [of 0 "(s, ?ctx)" prog "(s1, released)"] sc
    have "mapLevel (s1, released) = mapLevel (s, ?ctx)" "seqLevel (s1, released) = seqLevel (s, ?ctx)"
      by (simp_all add: scan_def)
    with t0 s' toks show ?thesis by (simp add: mapLevel_def seqLevel_def)
  qed
  then show "startedFlowMapNum s' = startedFlowMapNum s + mapBalance toks"
    and "startedFlowSequenceNum s' = startedFlowSequenceNum s + seqBalance toks" by simp_all
qed


lemma Init_flow [simp]:
  "startedFlowMapNum (Init text s) = startedFlowMapNum s"
  "startedFlowSequenceNum (Init text s) = startedFlowSequenceNum s"
  by (simp_all add: Init_def)

lemma Tokenize_loop_counters:
  "Tokenize_loop pooled s acc = Some (toks, s', released) \<Longrightarrow>
     startedFlowMapNum s' - mapBalance toks = startedFlowMapNum s - mapBalance acc
     \<and> startedFlowSequenceNum s' - seqBalance toks = startedFlowSequenceNum s - seqBalance acc"
proof (induction pooled s acc rule: Tokenize_loop.induct)
  case (1 pooled s acc)
  obtain subTokens err s1 rel1 where sc: "Scan pooled s = Some ((subTokens, err), s1, rel1)"
    using Scan_returns [of pooled s] by (cases "Scan pooled s") auto
  note c = Scan_counters [OF sc]
  show ?case
  proof (cases "err = Some EOF")
    case True
    with sc "1.prems" have "toks = acc" "s' = s1"
      by (subst (asm) Tokenize_loop.simps, simp)+
    moreover from sc True have "s1 = s" by (auto simp: Scan_def Let_def split: if_splits option.splits)
    ultimately show ?thesis by simp
  next
    case False
    with sc "1.prems" have "Tokenize_loop rel1 s1 (acc @ subTokens) = Some (toks, s', released)"
      by (subst (asm) Tokenize_loop.simps) simp
    from "1.IH" [OF sc refl refl refl False this] c show ?thesis
      by (simp add: balance_append2)
  qed
qed

subsection \<open>What the template scan adds to the origin buffer\<close>

definition slice :: "'a list \<Rightarrow> nat \<Rightarrow> nat \<Rightarrow> 'a list" where
  "slice xs a b = take (b - a) (drop a xs)"

lemma slice_empty [simp]: "slice xs a a = []"
  by (simp add: slice_def)

lemma slice_snoc: "a \<le> i \<Longrightarrow> i < length xs \<Longrightarrow> slice xs a (Suc i) = slice xs a i @ [xs ! i]"
  by (simp add: slice_def Suc_diff_le take_Suc_conv_app_nth)

lemma slice_length: "a \<le> b \<Longrightarrow> b \<le> length xs \<Longrightarrow> length (slice xs a b) = b - a"
  by (simp add: slice_def)

lemma slice_append:
  assumes "a \<le> b" "b \<le> c"
  shows "slice xs a b @ slice xs b c = slice xs a c"
proof -
  from assms have "c - a = (b - a) + (c - b)" by simp
  then have "take (c - a) (drop a xs) = take ((b - a) + (c - b)) (drop a xs)" by simp
  also have "\<dots> = take (b - a) (drop a xs) @ take (c - b) (drop (b - a) (drop a xs))"
    by (rule take_add)
  also from assms have "drop (b - a) (drop a xs) = drop b xs" by simp
  finally show ?thesis by (simp add: slice_def)
qed

lemma obuf_addOriginBuf [simp]: "obuf (addOriginBuf r c) = obuf c @ [r]"
  by (simp add: addOriginBuf_def Let_def)

lemma obuf_progress [simp]: "obuf (progress n c) = obuf c"
  by (simp add: progress_def)


lemma scanTemplateString_loop_obuf:
  "idx ctx \<le> length (src ctx) \<Longrightarrow> csize ctx = length (src ctx) \<Longrightarrow>
     obuf (scanTemplateString_loop ctx)
       = obuf ctx @ slice (src ctx) (idx ctx) (idx (scanTemplateString_loop ctx))
     \<and> idx (scanTemplateString_loop ctx) \<le> length (src ctx)"
proof (induction ctx rule: scanTemplateString_loop.induct)
  case (1 ctx)
  show ?case
  proof (cases "next_c ctx")
    case False
    then show ?thesis using "1.prems" by (subst (1 2 3) scanTemplateString_loop.simps) simp
  next
    case True
    let ?c = "currentChar ctx"
    let ?ctx1 = "progress 1 (addOriginBuf ?c ctx)"
    from True "1.prems" have lt: "idx ctx < length (src ctx)" by (simp add: next_c_def)
    have o1: "obuf ?ctx1 = obuf ctx @ slice (src ctx) (idx ctx) (idx ?ctx1)"
      using lt by (simp add: slice_snoc currentChar_def)
    show ?thesis
    proof (cases "?c = rn CHR ''\<newline>'' \<or> (?c = rn (CHR 0x22) \<and> previousChar ?ctx1 \<noteq> rn (CHR 0x5C))")
      case stop: True
      have "scanTemplateString_loop ctx = ?ctx1"
        using True stop by (subst scanTemplateString_loop.simps) (auto simp: Let_def)
      with o1 lt show ?thesis by simp
    next
      case go: False
      have eq: "scanTemplateString_loop ctx = scanTemplateString_loop ?ctx1"
        using True go by (subst scanTemplateString_loop.simps) (auto simp: Let_def)
      let ?L = "scanTemplateString_loop ?ctx1"
      have ih: "obuf ?L = obuf ?ctx1 @ slice (src ctx) (idx ?ctx1) (idx ?L)"
        and bound: "idx ?L \<le> length (src ctx)"
        using "1.IH" [OF True refl refl go] lt "1.prems" by simp_all
      have mono: "idx ?ctx1 \<le> idx ?L"
        using scanTemplateString_loop_fields [of ?ctx1] by simp
      have "idx ctx \<le> idx ?ctx1" by simp
      note app = slice_append [OF this mono, of "src ctx"]
      have "obuf ?L = (obuf ctx @ slice (src ctx) (idx ctx) (idx ?ctx1))
                        @ slice (src ctx) (idx ?ctx1) (idx ?L)"
        using ih o1 by (simp only:)
      also have "\<dots> = obuf ctx @ slice (src ctx) (idx ctx) (idx ?L)"
        using app by (simp only: append_assoc)
      finally show ?thesis using bound by (simp only: eq simp_thms)
    qed
  qed
qed


lemma takeWhile_two:
  assumes "length (takeWhile P xs) = 2"
  shows "2 \<le> length xs \<and> P (xs ! 0) \<and> P (xs ! 1)"
proof -
  have len: "length (takeWhile P xs) \<le> length xs" by (rule length_takeWhile_le)
  have "\<And>j. j < 2 \<Longrightarrow> P (xs ! j)"
  proof -
    fix j :: nat assume "j < 2"
    with assms have j: "j < length (takeWhile P xs)" by simp
    then have "takeWhile P xs ! j \<in> set (takeWhile P xs)" by (rule nth_mem)
    then have "P (takeWhile P xs ! j)" by (rule set_takeWhileD [THEN conjunct2])
    with j show "P (xs ! j)" by (simp add: takeWhile_nth)
  qed
  from this [of 0] this [of 1] len assms show ?thesis by simp
qed

lemma repeatNum_two:
  assumes "repeatNum ctx r = 2" "csize ctx = length (src ctx)"
  shows "idx ctx + 2 \<le> length (src ctx)" "src ctx ! idx ctx = r" "src ctx ! (idx ctx + 1) = r"
proof -
  let ?xs = "take (csize ctx - idx ctx) (drop (idx ctx) (src ctx))"
  from assms(1) have "length (takeWhile (\<lambda>x. x = r) ?xs) = 2" by (simp add: repeatNum_def)
  from takeWhile_two [OF this] assms(2)
  have l: "2 \<le> length (src ctx) - idx ctx" and a: "?xs ! 0 = r" and b: "?xs ! 1 = r" by simp_all
  from l show "idx ctx + 2 \<le> length (src ctx)" by simp
  from l a assms(2) show "src ctx ! idx ctx = r" by simp
  from l b assms(2) show "src ctx ! (idx ctx + 1) = r" by simp
qed

lemma slice_two:
  "a + 2 \<le> length xs \<Longrightarrow> slice xs a (a + 2) = [xs ! a, xs ! (a + 1)]"
  using slice_snoc [of a a xs] slice_snoc [of a "Suc a" xs] by simp


lemma scanTemplateString_obuf:
  assumes "idx ctx < length (src ctx)" "csize ctx = length (src ctx)"
    and "src ctx ! idx ctx = rn (CHR 0x22)"
  shows "obuf (scanTemplateString ctx)
           = obuf ctx @ slice (src ctx) (idx ctx) (idx (scanTemplateString ctx))"
    and "idx (scanTemplateString ctx) \<le> length (src ctx)"
proof -
  let ?ctx1 = "progress 1 (addOriginBuf (rn (CHR 0x22)) ctx)"
  let ?L = "scanTemplateString_loop ?ctx1"
  have o1: "obuf ?ctx1 = obuf ctx @ slice (src ctx) (idx ctx) (idx ?ctx1)"
    using assms by (simp add: slice_snoc)
  have ih: "obuf ?L = obuf ?ctx1 @ slice (src ctx) (idx ?ctx1) (idx ?L)"
    and bound: "idx ?L \<le> length (src ctx)"
    using scanTemplateString_loop_obuf [of ?ctx1] assms by simp_all
  have mono: "idx ?ctx1 \<le> idx ?L"
    using scanTemplateString_loop_fields [of ?ctx1] by simp
  have "idx ctx \<le> idx ?ctx1" by simp
  note app = slice_append [OF this mono, of "src ctx"]
  have "obuf ?L = (obuf ctx @ slice (src ctx) (idx ctx) (idx ?ctx1))
                    @ slice (src ctx) (idx ?ctx1) (idx ?L)"
    using ih o1 by (simp only:)
  also have "\<dots> = obuf ctx @ slice (src ctx) (idx ctx) (idx ?L)"
    using app by (simp only: append_assoc)
  finally show "obuf (scanTemplateString ctx)
           = obuf ctx @ slice (src ctx) (idx ctx) (idx (scanTemplateString ctx))"
    by (simp only: scanTemplateString_def)
  from bound show "idx (scanTemplateString ctx) \<le> length (src ctx)"
    by (simp only: scanTemplateString_def)
qed

lemma scanTemplate_loop_value:
  "scanTemplate_loop s p ctx = (Some tk, ctx') \<Longrightarrow>
   p \<le> idx ctx \<Longrightarrow> idx ctx \<le> length (src ctx) \<Longrightarrow> csize ctx = length (src ctx) \<Longrightarrow>
   obuf ctx = ob @ slice (src ctx) p (idx ctx) \<Longrightarrow>
     Type tk = TemplateType \<and> Value tk = slice (src ctx) p (idx ctx') \<and> Origin tk = ob @ Value tk
     \<and> idx ctx + 2 \<le> idx ctx' \<and> idx ctx' \<le> length (src ctx)
     \<and> slice (src ctx) (idx ctx' - 2) (idx ctx') = runes ''}}''"
proof (induction s p ctx rule: scanTemplate_loop.induct)
  case (1 s p ctx)
  note prems = "1.prems"
  show ?case
  proof (cases "next_c ctx")
    case False
    with prems(1) show ?thesis by (subst (asm) scanTemplate_loop.simps) simp
  next
    case True
    let ?c = "currentChar ctx"
    from True prems have lt: "idx ctx < length (src ctx)" by (simp add: next_c_def)
    show ?thesis
    proof (cases "?c = rn CHR ''}'' \<and> repeatNum ctx (rn CHR ''}'') = 2")
      case close: True
      let ?ctx1 = "progress 2 (addOriginBuf (rn CHR ''}'') (addOriginBuf (rn CHR ''}'') ctx))"
      from close prems(4) have rp: "idx ctx + 2 \<le> length (src ctx)"
        "src ctx ! idx ctx = rn CHR ''}''" "src ctx ! (idx ctx + 1) = rn CHR ''}''"
        using repeatNum_two [of ctx "rn CHR ''}''"] by simp_all
      have res: "tk = token_Template (take (idx ?ctx1 - p) (drop p (src ?ctx1))) (obuf ?ctx1) (pos s)"
        "ctx' = ?ctx1"
        using prems(1) True close
        by (subst (asm) scanTemplate_loop.simps, auto simp: Let_def)+
      have two: "slice (src ctx) (idx ctx) (idx ctx + 2) = runes ''}}''"
        using slice_two [OF rp(1)] rp(2,3) by simp
      have app: "slice (src ctx) p (idx ctx) @ slice (src ctx) (idx ctx) (idx ctx + 2)
                  = slice (src ctx) p (idx ctx + 2)"
        using prems(2) by (intro slice_append) simp_all
      have ob: "obuf ?ctx1 = ob @ slice (src ctx) p (idx ctx + 2)"
      proof -
        have "obuf ?ctx1 = (ob @ slice (src ctx) p (idx ctx)) @ runes ''}}''"
          using prems(5) by simp
        also have "\<dots> = ob @ (slice (src ctx) p (idx ctx) @ slice (src ctx) (idx ctx) (idx ctx + 2))"
          using two by (simp only: append_assoc)
        finally show ?thesis using app by (simp only:)
      qed
      show ?thesis using res ob two rp(1)
        by (simp add: token_Template_def mkToken_def slice_def)
    next
      case nclose: False
      show ?thesis
      proof (cases "?c = rn (CHR 0x22)")
        case str: True
        let ?ctx1 = "scanTemplateString ctx"
        have rec: "scanTemplate_loop s p ?ctx1 = (Some tk, ctx')"
          using prems(1) True nclose str
          by (subst (asm) scanTemplate_loop.simps) (auto simp: Let_def split: if_splits)
        have q: "src ctx ! idx ctx = rn (CHR 0x22)" using str by (simp add: currentChar_def)
        note so = scanTemplateString_obuf [OF lt prems(4) q]
        have mono: "idx ctx < idx ?ctx1" by (rule scanTemplateString_fields(1))
        have app: "slice (src ctx) p (idx ctx) @ slice (src ctx) (idx ctx) (idx ?ctx1)
                    = slice (src ctx) p (idx ?ctx1)"
          using prems(2) mono by (intro slice_append) simp_all
        have ob: "obuf ?ctx1 = ob @ slice (src ?ctx1) p (idx ?ctx1)"
        proof -
          have "obuf ?ctx1 = (ob @ slice (src ctx) p (idx ctx)) @ slice (src ctx) (idx ctx) (idx ?ctx1)"
            using so(1) prems(5) by (simp only:)
          also have "\<dots> = ob @ slice (src ctx) p (idx ?ctx1)"
            using app by (simp only: append_assoc)
          finally show ?thesis by (simp add: scanTemplateString_fields)
        qed
        have "p \<le> idx ?ctx1" using prems(2) mono by simp
        moreover have "idx ?ctx1 \<le> length (src ?ctx1)"
          using so(2) by (simp add: scanTemplateString_fields)
        moreover have "csize ?ctx1 = length (src ?ctx1)"
          using prems(4) by (simp add: scanTemplateString_fields)
        ultimately have "Type tk = TemplateType \<and> Value tk = slice (src ?ctx1) p (idx ctx')
            \<and> Origin tk = ob @ Value tk \<and> idx ?ctx1 + 2 \<le> idx ctx'
            \<and> idx ctx' \<le> length (src ?ctx1)
            \<and> slice (src ?ctx1) (idx ctx' - 2) (idx ctx') = runes ''}}''"
          using "1.IH"(1) [OF True refl nclose str rec] ob by blast
        then show ?thesis using mono by (simp add: scanTemplateString_fields(2,3))
      next
        case nstr: False
        let ?ctx1 = "progress 1 (addOriginBuf ?c ctx)"
        have rec: "scanTemplate_loop s p ?ctx1 = (Some tk, ctx')"
          using prems(1) True nclose nstr
          by (subst (asm) scanTemplate_loop.simps) (auto simp: Let_def split: if_splits)
        have ob: "obuf ?ctx1 = ob @ slice (src ?ctx1) p (idx ?ctx1)"
          using prems(2,5) lt by (simp add: slice_snoc currentChar_def)
        have "p \<le> idx ?ctx1" using prems(2) by simp
        moreover have "idx ?ctx1 \<le> length (src ?ctx1)" using lt by simp
        moreover have "csize ?ctx1 = length (src ?ctx1)" using prems(4) by simp
        ultimately have "Type tk = TemplateType \<and> Value tk = slice (src ?ctx1) p (idx ctx')
            \<and> Origin tk = ob @ Value tk \<and> idx ?ctx1 + 2 \<le> idx ctx'
            \<and> idx ctx' \<le> length (src ?ctx1)
            \<and> slice (src ?ctx1) (idx ctx' - 2) (idx ctx') = runes ''}}''"
          using "1.IH"(2) [OF True refl nclose nstr rec] ob by blast
        then show ?thesis by simp
      qed
    qed
  qed
qed


lemma scanTemplate_value:
  assumes sz: "csize ctx = length (src ctx)" and rp: "repeatNum ctx (rn CHR ''{'') = 2"
    and res: "scanTemplate s ctx = (Some tk, ctx')"
  shows "Type tk = TemplateType"
    and "Value tk = take (idx ctx' - idx ctx) (drop (idx ctx) (src ctx))"
    and "Origin tk = obuf ctx @ Value tk"
    and "4 \<le> length (Value tk)"
    and "take 2 (Value tk) = runes ''{{''"
    and "drop (length (Value tk) - 2) (Value tk) = runes ''}}''"
proof -
  let ?ctx1 = "progress 2 (addOriginBuf (rn CHR ''{'') (addOriginBuf (rn CHR ''{'') ctx))"
  note r2 = repeatNum_two [OF rp sz]
  have two: "slice (src ctx) (idx ctx) (idx ctx + 2) = runes ''{{''"
    using slice_two [OF r2(1)] r2(2,3) by simp
  have ob: "obuf ?ctx1 = obuf ctx @ slice (src ?ctx1) (idx ctx) (idx ?ctx1)"
    using two by simp
  have lp: "scanTemplate_loop s (idx ctx) ?ctx1 = (Some tk, ctx')"
    using res by (simp add: scanTemplate_def)
  have "idx ctx \<le> idx ?ctx1" "idx ?ctx1 \<le> length (src ?ctx1)" "csize ?ctx1 = length (src ?ctx1)"
    using r2(1) sz by simp_all
  from scanTemplate_loop_value [OF lp this ob]
  have ty: "Type tk = TemplateType" and v: "Value tk = slice (src ctx) (idx ctx) (idx ctx')"
    and org: "Origin tk = obuf ctx @ Value tk" and lo: "idx ctx + 4 \<le> idx ctx'"
    and hi: "idx ctx' \<le> length (src ctx)"
    and cl: "slice (src ctx) (idx ctx' - 2) (idx ctx') = runes ''}}''"
    by simp_all
  show "Type tk = TemplateType" by (rule ty)
  show "Value tk = take (idx ctx' - idx ctx) (drop (idx ctx) (src ctx))"
    using v by (simp add: slice_def)
  show "Origin tk = obuf ctx @ Value tk" by (rule org)
  have len: "length (Value tk) = idx ctx' - idx ctx"
    using v lo hi by (simp add: slice_length)
  with lo show "4 \<le> length (Value tk)" by simp
  have "take 2 (Value tk) = slice (src ctx) (idx ctx) (idx ctx + 2)"
    using v lo by (simp add: slice_def min_def)
  with two show "take 2 (Value tk) = runes ''{{''" by simp
  have "drop (length (Value tk) - 2) (Value tk) = slice (src ctx) (idx ctx' - 2) (idx ctx')"
    using v lo hi len by (simp add: slice_def drop_take add.commute)
  with cl show "drop (length (Value tk) - 2) (Value tk) = runes ''}}''" by simp
qed

subsection \<open>Line breaks at the end of a literal block scalar\<close>

abbreviation LF :: rune where
  "LF \<equiv> rn CHR ''\<newline>''"

lemma updateIndent_literal_newline:
  assumes "isLiteral ctx" "\<not> isFirstCharAtLine s \<or> indentState s = IndentStateKeep"
  shows "indentState (updateIndent s ctx LF) = IndentStateKeep"
  using assms by (auto simp: updateIndent_def isNewLineChar_def isBlockScalar_def)

lemma scan_iter_literal_newline:
  assumes "isLiteral ctx" "currentChar ctx = LF"
    "\<not> isFirstCharAtLine s \<or> indentState s = IndentStateKeep"
  shows "scan_iter (s, ctx) = Continue (scanScalar (updateIndent s ctx LF, ctx) LF)"
  using assms updateIndent_literal_newline [OF assms(1,3)]
  by (simp add: scan_iter_def Let_def isBlockScalar_def isChangedToIndentStateEqual_def
      isChangedToIndentStateDown_def)

lemma scanScalar_literal_newline:
  assumes "isLiteral ctx" "\<not> isEOS ctx"
  shows "\<exists>s' ctx'. scanScalar (s, ctx) LF = (s', ctx') \<and> indentState s' = indentState s
     \<and> isFirstCharAtLine s' \<and> isLiteral ctx' \<and> src ctx' = src ctx \<and> csize ctx' = csize ctx
     \<and> idx ctx' = idx ctx + 1 \<and> buf ctx' = buf ctx @ [LF] \<and> obuf ctx' = obuf ctx @ [LF]
     \<and> tokens ctx' = tokens ctx \<and> literalOpt ctx' = literalOpt ctx"
  using assms
  by (simp add: scanScalar_def Let_def isEOS_def addOriginBuf_def addBuf_def progressLine_def
      progress_def isNewLineChar_def)

definition chomp :: "rune list \<Rightarrow> rune list \<Rightarrow> rune list" where
  "chomp opt v = (if opt = runes ''-'' then butlast v else v)"

lemma scanScalar_literal_last_newline:
  assumes "isLiteral ctx" "isEOS ctx"
  shows "\<exists>s' ctx' tok. scanScalar (s, ctx) LF = (s', ctx') \<and> csize ctx' = csize ctx
     \<and> idx ctx' = idx ctx + 1 \<and> buf ctx' = [] \<and> tokens ctx' = tokens ctx @ [tok]
     \<and> Type tok = StringType \<and> Value tok = chomp (literalOpt ctx) (buf ctx @ [LF])
     \<and> Origin tok = obuf ctx @ [LF]"
  using assms
  by (simp add: scanScalar_def Let_def isEOS_def addOriginBuf_def addBuf_def progressColumn_def
      progress_def bufferedSrc_def isBlockScalar_def addToken_def resetBuffer_def chomp_def
      token_String_def mkToken_def)

lemma literal_newline_run:
  assumes "isLiteral ctx" "\<not> isFirstCharAtLine s \<or> indentState s = IndentStateKeep"
    "src ctx = pre @ replicate (Suc m) LF" "idx ctx = length pre" "csize ctx = length (src ctx)"
  shows "\<exists>s' ctx' tok. scan_loop p (s, ctx) = Some (length (src ctx), s', ctx')
     \<and> tokens ctx' = tokens ctx @ [tok] \<and> Type tok = StringType
     \<and> Value tok = chomp (literalOpt ctx) (buf ctx @ replicate (Suc m) LF)
     \<and> Origin tok = obuf ctx @ replicate (Suc m) LF"
  using assms
proof (induction m arbitrary: s ctx pre p)
  case 0
  have cur: "currentChar ctx = LF" using 0 by (simp add: currentChar_def)
  have eos: "isEOS ctx" using 0 by (simp add: isEOS_def)
  have nx: "next_c ctx" using 0 by (simp add: next_c_def)
  from scanScalar_literal_last_newline [OF "0.prems"(1) eos, of "updateIndent s ctx LF"]
  obtain s' ctx' tok where sc: "scanScalar (updateIndent s ctx LF, ctx) LF = (s', ctx')"
    and f: "csize ctx' = csize ctx" "idx ctx' = idx ctx + 1" "buf ctx' = []"
      "tokens ctx' = tokens ctx @ [tok]" "Type tok = StringType"
      "Value tok = chomp (literalOpt ctx) (buf ctx @ [LF])" "Origin tok = obuf ctx @ [LF]"
    by blast
  have nn: "\<not> next_c ctx'" using f 0 by (simp add: next_c_def)
  have fl: "addBufferedTokenIfExists ctx' = ctx'"
    using f by (simp add: addBufferedTokenIfExists_def bufferedToken_def bufferedSrc_def addToken_def)
  have "scan_loop p (s, ctx) = scan_loop (nextPos ctx) (s', ctx')"
    using nx scan_iter_literal_newline [OF "0.prems"(1) cur "0.prems"(2)] sc
    by (subst scan_loop.simps) simp
  also have "\<dots> = Some (nextPos ctx, s', ctx')"
    using nn fl by (subst scan_loop.simps) simp
  finally show ?case using f 0 by (simp add: nextPos_def)
next
  case (Suc m)
  have cur: "currentChar ctx = LF" using Suc.prems by (simp add: currentChar_def nth_append)
  have eos: "\<not> isEOS ctx" using Suc.prems by (simp add: isEOS_def)
  have nx: "next_c ctx" using Suc.prems by (simp add: next_c_def)
  from scanScalar_literal_newline [OF Suc.prems(1) eos, of "updateIndent s ctx LF"]
  obtain s' ctx' where sc: "scanScalar (updateIndent s ctx LF, ctx) LF = (s', ctx')"
    and f: "indentState s' = indentState (updateIndent s ctx LF)" "isLiteral ctx'"
      "src ctx' = src ctx" "csize ctx' = csize ctx" "idx ctx' = idx ctx + 1"
      "buf ctx' = buf ctx @ [LF]" "obuf ctx' = obuf ctx @ [LF]" "tokens ctx' = tokens ctx"
      "literalOpt ctx' = literalOpt ctx"
    by blast
  have keep: "\<not> isFirstCharAtLine s' \<or> indentState s' = IndentStateKeep"
    using f(1) updateIndent_literal_newline [OF Suc.prems(1,2)] by simp
  have src': "src ctx' = (pre @ [LF]) @ replicate (Suc m) LF"
    using f Suc.prems by simp
  have idx': "idx ctx' = length (pre @ [LF])" using f Suc.prems by simp
  have cs': "csize ctx' = length (src ctx')" using f Suc.prems by simp
  from Suc.IH [OF f(2) keep src' idx' cs', of "nextPos ctx"]
  obtain s2 ctx2 tok where r: "scan_loop (nextPos ctx) (s', ctx') = Some (length (src ctx'), s2, ctx2)"
    "tokens ctx2 = tokens ctx' @ [tok]" "Type tok = StringType"
    "Value tok = chomp (literalOpt ctx') (buf ctx' @ replicate (Suc m) LF)"
    "Origin tok = obuf ctx' @ replicate (Suc m) LF"
    by blast
  have "scan_loop p (s, ctx) = scan_loop (nextPos ctx) (s', ctx')"
    using nx scan_iter_literal_newline [OF Suc.prems(1) cur Suc.prems(2)] sc
    by (subst scan_loop.simps) simp
  then show ?case using r f by simp
qed

lemma Tokenize_one_scan:
  assumes "text \<noteq> []"
    "scan_loop 0 (Init text zeroScanner, newContext createContext text) = Some (length text, s', ctx')"
  shows "Tokenize text = Some (tokens ctx')"
proof -
  from scan_loop_keeps [OF assms(2)]
  have k: "source s' = text" "sourcePos s' = 0" by (simp_all add: Init_def)
  have 1: "Scan createContext (Init text zeroScanner)
           = Some ((tokens ctx', None), s'\<lparr>sourcePos := length text\<rparr>, ctx')"
    using assms k by (simp add: Scan_def Init_def scan_def Let_def)
  have 2: "Scan ctx' (s'\<lparr>sourcePos := length text\<rparr>)
           = Some (([], Some EOF), s'\<lparr>sourcePos := length text\<rparr>, ctx')"
    using k by (simp add: Scan_def)
  have "Tokenize_loop createContext (Init text zeroScanner) []
         = Tokenize_loop ctx' (s'\<lparr>sourcePos := length text\<rparr>) (tokens ctx')"
    using 1 by (subst Tokenize_loop.simps) simp
  also have "\<dots> = Some (tokens ctx', s'\<lparr>sourcePos := length text\<rparr>, ctx')"
    using 2 by (subst Tokenize_loop.simps) simp
  finally show ?thesis by (simp add: Tokenize_def Tokenize_from_def Tokenize_with_def)
qed

text \<open>
  \<open>scan_iters k sc\<close>: \<open>k\<close> passes through the body of the scan loop that all go on
  with the loop.
\<close>

fun scan_iters :: "nat \<Rightarrow> Scanner \<times> Context \<Rightarrow> (Scanner \<times> Context) option" where
  "scan_iters 0 sc = Some sc"
| "scan_iters (Suc k) sc =
     (if next_c (snd sc)
      then (case scan_iter sc of Continue sc' \<Rightarrow> scan_iters k sc' | _ \<Rightarrow> None)
      else None)"

lemma scan_loop_iters:
  "scan_iters k sc = Some sc' \<Longrightarrow> 0 < k \<Longrightarrow> \<exists>p'. scan_loop p sc = scan_loop p' sc'"
proof (induction k arbitrary: sc p)
  case 0
  then show ?case by simp
next
  case (Suc k)
  from Suc.prems(1) obtain sc1 where nx: "next_c (snd sc)" and it: "scan_iter sc = Continue sc1"
    and rest: "scan_iters k sc1 = Some sc'"
    by (auto split: if_splits Flow.splits)
  have st: "scan_loop p sc = scan_loop (nextPos (snd sc)) sc1"
    using nx it by (subst scan_loop.simps) simp
  show ?case
  proof (cases k)
    case 0
    with rest st show ?thesis by auto
  next
    case (Suc j)
    with Suc.IH [OF rest, of "nextPos (snd sc)"] st show ?thesis by auto
  qed
qed

definition lit :: "rune list \<Rightarrow> nat \<Rightarrow> rune list" where
  "lit opt n = rn CHR ''|'' # opt @ runes ''\<newline> a'' @ replicate (Suc n) LF"

lemmas eval_defs = newContext_def reset_def resetBuffer_def createContext_def Init_def zeroScanner_def
  nextPos_def currentChar_def isBlockScalar_def updateIndent_def isNewLineChar_def
  isChangedToIndentStateEqual_def isChangedToIndentStateDown_def isChangedToIndentStateUp_def
  isNeededKeepPreviousIndentNum_def addBufferedTokenIfExists_def bufferedToken_def bufferedSrc_def
  existsBuffer_def addToken_def addBuf_def addOriginBuf_def progress_def pos_def
  scanScalar_def isEOS_def breakScalar_def breakScalar_ctx_def progressColumn_def progressLine_def
  scan_iter_def scan_switch_def scan_header_def scanScalarHeader_def source_c_def trimRightSpaces_def
  validHeaderOptions_def token_Literal_def mkToken_def next_c_def

lemma literal_head:
  assumes "opt = [] \<or> opt = runes ''+'' \<or> opt = runes ''-''"
  shows "\<exists>s c tok. scan_iters 3 (Init (lit opt n) zeroScanner, newContext createContext (lit opt n))
            = Some (s, c)
     \<and> isLiteral c \<and> \<not> isFirstCharAtLine s \<and> src c = lit opt n \<and> idx c = length opt + 4
     \<and> csize c = length (lit opt n) \<and> buf c = runes ''a'' \<and> obuf c = runes '' a''
     \<and> tokens c = [tok] \<and> Type tok = LiteralType \<and> Value tok = rn CHR ''|'' # opt
     \<and> literalOpt c = opt"
  using assms
  apply (elim disjE)
    apply (simp_all add: numeral_3_eq_3 Let_def lit_def eval_defs)
    apply (subst scanScalarHeader_loop.simps, simp add: Let_def eval_defs)
   apply (subst scanScalarHeader_loop.simps, simp add: Let_def eval_defs)
   apply (subst scanScalarHeader_loop.simps, simp add: Let_def eval_defs)
  apply (subst scanScalarHeader_loop.simps, simp add: Let_def eval_defs)
  apply (subst scanScalarHeader_loop.simps, simp add: Let_def eval_defs)
  done

lemma literal_tokens:
  assumes "opt = [] \<or> opt = runes ''+'' \<or> opt = runes ''-''"
  shows "map_option (map (\<lambda>t. (Type t, Value t))) (Tokenize (lit opt n))
     = Some [(LiteralType, rn CHR ''|'' # opt),
             (StringType, chomp opt (rn CHR ''a'' # replicate (Suc n) LF))]"
proof -
  let ?pre = "rn CHR ''|'' # opt @ runes ''\<newline> a''"
  from literal_head [OF assms, of n]
  obtain s c tok where h: "scan_iters 3 (Init (lit opt n) zeroScanner, newContext createContext (lit opt n))
            = Some (s, c)"
    "isLiteral c" "\<not> isFirstCharAtLine s" "src c = lit opt n" "idx c = length opt + 4"
    "csize c = length (lit opt n)" "buf c = runes ''a''" "obuf c = runes '' a''"
    "tokens c = [tok]" "Type tok = LiteralType" "Value tok = rn CHR ''|'' # opt"
    "literalOpt c = opt"
    by blast
  from scan_loop_iters [OF h(1), of 0]
  obtain p' where st: "scan_loop 0 (Init (lit opt n) zeroScanner, newContext createContext (lit opt n))
      = scan_loop p' (s, c)"
    by auto
  have src: "src c = ?pre @ replicate (Suc n) LF" using h(4) by (simp add: lit_def)
  have i: "idx c = length ?pre" using h(5) by simp
  have cs: "csize c = length (src c)" using h(4,6) by simp
  have k: "\<not> isFirstCharAtLine s \<or> indentState s = IndentStateKeep" using h(3) by simp
  from literal_newline_run [OF h(2) k src i cs, of p']
  obtain s' ctx' tok2 where r: "scan_loop p' (s, c) = Some (length (src c), s', ctx')"
    "tokens ctx' = tokens c @ [tok2]" "Type tok2 = StringType"
    "Value tok2 = chomp (literalOpt c) (buf c @ replicate (Suc n) LF)"
    by blast
  have ne: "lit opt n \<noteq> []" by (simp add: lit_def)
  from Tokenize_one_scan [OF ne] st r(1) h(4)
  have "Tokenize (lit opt n) = Some (tokens ctx')" by simp
  with r h show ?thesis by simp
qed

lemma chomp_strip:
  "chomp (runes ''-'') (a # replicate (Suc n) x) = a # replicate n x"
proof -
  have "a # x # replicate n x = (a # replicate n x) @ [x]"
    by (simp add: replicate_append_same)
  then have "butlast (a # x # replicate n x) = a # replicate n x"
    by (simp only: butlast_snoc)
  then show ?thesis by (simp add: chomp_def)
qed

subsection \<open>Line breaks at the end of a folded block scalar, and the end by indentation\<close>












subsection \<open>Which runes of the source are in the origin of a token\<close>


definition origins :: "Token list \<Rightarrow> rune list" where
  "origins ts = concat (map Origin ts)"





lemma origins_simps [simp]:
  "origins [] = []" "origins (ts @ [t]) = origins ts @ Origin t"
  "origins (ts @ [t, u]) = origins ts @ Origin t @ Origin u"
  by (simp_all add: origins_def)

lemma Origin_mkToken [simp]: "Origin (mkToken ty v org p) = org"
  by (simp add: mkToken_def)






































section \<open>The template lexer (the lexer file of package parser)\<close>

text \<open>
  The lexer's input is a Go string read with \<^verbatim>\<open>utf8.DecodeRuneInString\<close>. It is
  modelled by the list of its runes, so a position counts runes and the width of a rune
  that was read is 1 (0 at the end of the input). The fields \<^verbatim>\<open>pos\<close> and
  \<^verbatim>\<open>line\<close> are called \<open>lpos\<close> and \<open>lline\<close> here, because the scanner model
  already has these names. The channel \<^verbatim>\<open>items\<close> is the list of the items sent so
  far. The name of the input, the token under the items and the \<^verbatim>\<open>done\<close> flag play
  no part in the functions modelled. The field \<^verbatim>\<open>typ\<close> of an item is \<open>ityp\<close>.
\<close>

datatype itemType =
    itemError | itemBool | itemChar | itemCharConstant | itemComplex | itemAssign
  | itemDeclare | itemEOF | itemField | itemIdentifier | itemLeftDelim | itemLeftParen
  | itemNumber | itemPipe | itemRawString | itemRightDelim | itemRightParen | itemSpace
  | itemString | itemText | itemVariable | itemKeyword | itemBlock | itemDot | itemDefine
  | itemElse | itemEnd | itemIf | itemNil | itemRange | itemTemplate | itemWith | itemYaml

text \<open>
  The value of an item is a piece of the input, or, for an error item, the result of
  \<^verbatim>\<open>fmt.Sprintf(format, args...)\<close>, which is kept as the format and its arguments.
\<close>

datatype itemVal = InputText "rune list" | Formatted string "rune list"

record item =
  ityp :: itemType
  ipos :: nat
  val :: itemVal
  iline :: int

text \<open>The map \<^verbatim>\<open>key\<close>; a word that is not a key has no entry.\<close>

definition key :: "rune list \<Rightarrow> itemType option" where
  "key w = map_of
     [(runes ''.'', itemDot), (runes ''block'', itemBlock), (runes ''define'', itemDefine),
      (runes ''else'', itemElse), (runes ''end'', itemEnd), (runes ''if'', itemIf),
      (runes ''range'', itemRange), (runes ''nil'', itemNil),
      (runes ''template'', itemTemplate), (runes ''with'', itemWith)] w"

definition eof :: rune where
  "eof = - 1"

datatype stateFn =
    St_lexLeftDelim | St_lexComment | St_lexRightDelim | St_lexInsideAction | St_lexSpace
  | St_lexIdentifier | St_lexField | St_lexVariable | St_lexChar | St_lexNumber
  | St_lexQuote | St_lexRawQuote

record templateLexer =
  input :: "rune list"
  leftDelim :: "rune list"
  rightDelim :: "rune list"
  trimRightDelim :: "rune list"
  lpos :: nat
  start :: nat
  width :: nat
  items :: "item list"
  parenDepth :: int
  lline :: int
  startLine :: int

definition next_l :: "templateLexer \<Rightarrow> rune \<times> templateLexer" where
  "next_l l =
     (if lpos l \<ge> length (input l) then (eof, l\<lparr>width := 0\<rparr>)
      else
        let r = input l ! lpos l;
            l1 = l\<lparr>width := 1, lpos := lpos l + 1\<rparr>
        in if r = rn CHR ''\<newline>'' then (r, l1\<lparr>lline := lline l1 + 1\<rparr>) else (r, l1))"

definition backup_l :: "templateLexer \<Rightarrow> templateLexer" where
  "backup_l l =
     (let l1 = l\<lparr>lpos := lpos l - width l\<rparr>
      in if width l1 = 1 \<and> input l1 ! lpos l1 = rn CHR ''\<newline>''
         then l1\<lparr>lline := lline l1 - 1\<rparr> else l1)"

definition peek_l :: "templateLexer \<Rightarrow> rune \<times> templateLexer" where
  "peek_l l = (case next_l l of (r, l1) \<Rightarrow> (r, backup_l l1))"

definition emit :: "itemType \<Rightarrow> templateLexer \<Rightarrow> templateLexer" where
  "emit t l =
     l\<lparr>items := items l @ [\<lparr>ityp = t, ipos = start l,
                              val = InputText (take (lpos l - start l) (drop (start l) (input l))),
                              iline = startLine l\<rparr>],
       start := lpos l, startLine := lline l\<rparr>"

definition errorf :: "string \<Rightarrow> rune list \<Rightarrow> templateLexer \<Rightarrow> stateFn option \<times> templateLexer" where
  "errorf format args l =
     (None, l\<lparr>items := items l @ [\<lparr>ityp = itemError, ipos = start l,
                                     val = Formatted format args, iline = startLine l\<rparr>]\<rparr>)"

definition isSpace :: "rune \<Rightarrow> bool" where
  "isSpace r = (r = rn CHR '' '' \<or> r = rn (CHR 0x09))"

definition isEndOfLine :: "rune \<Rightarrow> bool" where
  "isEndOfLine r = (r = rn (CHR 0x0D) \<or> r = rn CHR ''\<newline>'')"

text \<open>
  \<^verbatim>\<open>unicode.IsLetter\<close> and \<^verbatim>\<open>unicode.IsDigit\<close> belong to Go's library; their
  tables are parameters of the model. Both are false on a negative rune, such as
  \<open>eof\<close>.
\<close>

record unicode =
  IsLetter :: "rune \<Rightarrow> bool"
  IsDigit :: "rune \<Rightarrow> bool"

definition isAlphaNumeric :: "unicode \<Rightarrow> rune \<Rightarrow> bool" where
  "isAlphaNumeric u r = (r = rn CHR ''_'' \<or> (0 \<le> r \<and> IsLetter u r) \<or> (0 \<le> r \<and> IsDigit u r))"

text \<open>
  \<^verbatim>\<open>utf8.DecodeRuneInString\<close> of the empty string is \<^verbatim>\<open>utf8.RuneError\<close>, U+FFFD.
\<close>

definition firstRune :: "rune list \<Rightarrow> rune" where
  "firstRune s = (case s of [] \<Rightarrow> 0xFFFD | r # rs \<Rightarrow> r)"

definition atTerminator :: "templateLexer \<Rightarrow> bool \<times> templateLexer" where
  "atTerminator l = (case peek_l l of (r, l1) \<Rightarrow>
     if isSpace r \<or> isEndOfLine r then (True, l1)
     else if r = eof \<or> r = rn CHR ''.'' \<or> r = rn CHR '','' \<or> r = rn CHR ''|''
             \<or> r = rn CHR '':'' \<or> r = rn CHR '')'' \<or> r = rn CHR ''(''
     then (True, l1)
     else if firstRune (rightDelim l1) = r then (True, l1)
     else (False, l1))"

text \<open>
  The loops \<^verbatim>\<open>for { r = l.next(); if !isAlphaNumeric(r) { l.backup(); break } }\<close>
  of \<^verbatim>\<open>lexIdentifier\<close> and \<^verbatim>\<open>lexFieldOrVariable\<close>: the result is the rune that
  ended the run and the lexer after the \<^verbatim>\<open>backup\<close>.
\<close>

function absorbAlphaNumeric :: "unicode \<Rightarrow> templateLexer \<Rightarrow> rune \<times> templateLexer" where
  "absorbAlphaNumeric u l =
     (case next_l l of (r, l1) \<Rightarrow>
        if isAlphaNumeric u r then absorbAlphaNumeric u l1 else (r, backup_l l1))"
  by pat_completeness auto
termination
  by (relation "measure (\<lambda>(u, l). length (input l) - lpos l)")
     (auto simp: next_l_def Let_def isAlphaNumeric_def eof_def split: if_splits)

declare absorbAlphaNumeric.simps [simp del]

text \<open>
  \<open>None\<close> is the run-time panic of \<^verbatim>\<open>word[0]\<close> on an empty word.
\<close>

definition lexIdentifier :: "unicode \<Rightarrow> templateLexer \<Rightarrow> (stateFn option \<times> templateLexer) option" where
  "lexIdentifier u l = (case absorbAlphaNumeric u l of (r, l1) \<Rightarrow>
     let word = take (lpos l1 - start l1) (drop (start l1) (input l1))
     in case atTerminator l1 of (ok, l2) \<Rightarrow>
          if \<not> ok then Some (errorf ''bad character %#U'' [r] l2)
          else (case key word of
                  Some k \<Rightarrow> Some (Some St_lexInsideAction, emit k l2)
                | None \<Rightarrow>
                    (case word of
                       [] \<Rightarrow> None
                     | w0 # ws \<Rightarrow>
                         if w0 = rn CHR ''.'' then Some (Some St_lexInsideAction, emit itemField l2)
                         else if word = runes ''true'' \<or> word = runes ''false''
                         then Some (Some St_lexInsideAction, emit itemBool l2)
                         else Some (Some St_lexInsideAction, emit itemIdentifier l2))))"

definition lexFieldOrVariable ::
  "unicode \<Rightarrow> templateLexer \<Rightarrow> itemType \<Rightarrow> stateFn option \<times> templateLexer" where
  "lexFieldOrVariable u l t = (case atTerminator l of (ok, l1) \<Rightarrow>
     if ok then
       (if t = itemVariable then (Some St_lexInsideAction, emit itemVariable l1)
        else (Some St_lexInsideAction, emit itemDot l1))
     else
       (case absorbAlphaNumeric u l1 of (r, l2) \<Rightarrow>
          case atTerminator l2 of (ok2, l3) \<Rightarrow>
            if \<not> ok2 then errorf ''bad character %#U'' [r] l3
            else (Some St_lexInsideAction, emit t l3)))"

definition lexField :: "unicode \<Rightarrow> templateLexer \<Rightarrow> stateFn option \<times> templateLexer" where
  "lexField u l = lexFieldOrVariable u l itemField"

definition lexVariable :: "unicode \<Rightarrow> templateLexer \<Rightarrow> stateFn option \<times> templateLexer" where
  "lexVariable u l = (case atTerminator l of (ok, l1) \<Rightarrow>
     if ok then (Some St_lexInsideAction, emit itemVariable l1)
     else lexFieldOrVariable u l1 itemVariable)"

text \<open>
  \<^verbatim>\<open>lex\<close> without the \<^verbatim>\<open>go l.run()\<close>: the lexer as it is created.
\<close>

definition lex :: "rune list \<Rightarrow> rune list \<Rightarrow> rune list \<Rightarrow> templateLexer" where
  "lex inp left right =
     (let left1 = (if left = [] then runes ''{{'' else left);
          right1 = (if right = [] then runes ''}}'' else right)
      in \<lparr>input = inp, leftDelim = left1, rightDelim = right1,
          trimRightDelim = runes '' -'' @ right1, lpos = 0, start = 0, width = 0,
          items = [], parenDepth = 0, lline = 1, startLine = 1\<rparr>)"

text \<open>The ASCII rows of Go's tables, to run the lexer on ASCII input.\<close>

definition asciiTables :: unicode where
  "asciiTables = \<lparr>IsLetter = (\<lambda>r. (0x41 \<le> r \<and> r \<le> 0x5A) \<or> (0x61 \<le> r \<and> r \<le> 0x7A)),
                   IsDigit = (\<lambda>r. 0x30 \<le> r \<and> r \<le> 0x39)\<rparr>"

subsection \<open>What the lexer's steps leave alone\<close>

lemma next_l_fields:
  "input (snd (next_l l)) = input l" "rightDelim (snd (next_l l)) = rightDelim l"
  "items (snd (next_l l)) = items l" "start (snd (next_l l)) = start l"
  "startLine (snd (next_l l)) = startLine l"
  by (simp_all add: next_l_def Let_def)

lemma backup_l_fields:
  "input (backup_l l) = input l" "rightDelim (backup_l l) = rightDelim l"
  "items (backup_l l) = items l" "start (backup_l l) = start l"
  "startLine (backup_l l) = startLine l"
  by (simp_all add: backup_l_def Let_def)

lemma peek_l_fields:
  "input (snd (peek_l l)) = input l" "rightDelim (snd (peek_l l)) = rightDelim l"
  "items (snd (peek_l l)) = items l" "start (snd (peek_l l)) = start l"
  "startLine (snd (peek_l l)) = startLine l" "lpos (snd (peek_l l)) = lpos l"
  by (simp_all add: peek_l_def next_l_def backup_l_def Let_def split: prod.splits)

lemma peek_l_rune:
  "fst (peek_l l) = (if lpos l \<ge> length (input l) then eof else input l ! lpos l)"
  by (simp add: peek_l_def next_l_def Let_def split: prod.splits)

lemma atTerminator_fields:
  "input (snd (atTerminator l)) = input l" "rightDelim (snd (atTerminator l)) = rightDelim l"
  "items (snd (atTerminator l)) = items l" "start (snd (atTerminator l)) = start l"
  "startLine (snd (atTerminator l)) = startLine l" "lpos (snd (atTerminator l)) = lpos l"
  using peek_l_fields [of l]
  by (auto simp: atTerminator_def split: prod.splits)

lemma absorbAlphaNumeric_fields:
  "input (snd (absorbAlphaNumeric u l)) = input l
   \<and> rightDelim (snd (absorbAlphaNumeric u l)) = rightDelim l
   \<and> items (snd (absorbAlphaNumeric u l)) = items l
   \<and> start (snd (absorbAlphaNumeric u l)) = start l
   \<and> startLine (snd (absorbAlphaNumeric u l)) = startLine l
   \<and> fst (peek_l (snd (absorbAlphaNumeric u l))) = fst (absorbAlphaNumeric u l)"
proof (induction u l rule: absorbAlphaNumeric.induct)
  case (1 u l)
  obtain r l1 where nx: "next_l l = (r, l1)" by (cases "next_l l")
  show ?case
  proof (cases "isAlphaNumeric u r")
    case True
    have eq: "absorbAlphaNumeric u l = absorbAlphaNumeric u l1"
      using nx True by (subst absorbAlphaNumeric.simps) simp
    from "1.IH" [OF nx [symmetric] True] next_l_fields [of l] nx show ?thesis
      by (simp add: eq)
  next
    case False
    have eq: "absorbAlphaNumeric u l = (r, backup_l l1)"
      using nx False by (subst absorbAlphaNumeric.simps) simp
    have "lpos (backup_l l1) = lpos l" "input (backup_l l1) = input l"
      using nx by (auto simp: next_l_def backup_l_def Let_def split: if_splits)
    moreover have "r = (if lpos l \<ge> length (input l) then eof else input l ! lpos l)"
      using nx by (auto simp: next_l_def Let_def split: if_splits)
    ultimately have "fst (peek_l (backup_l l1)) = r" by (simp add: peek_l_rune)
    with next_l_fields [of l] nx show ?thesis
      by (simp add: eq backup_l_fields)
  qed
qed

text \<open>
  The runes after which \<^verbatim>\<open>atTerminator\<close> answers true: the list of the claim, with
  the tab and the carriage return that \<^verbatim>\<open>isSpace\<close> and \<^verbatim>\<open>isEndOfLine\<close> accept. The
  first argument is the first rune of the right delimiter.
\<close>

definition isTerminator :: "rune \<Rightarrow> rune \<Rightarrow> bool" where
  "isTerminator rd r =
     (r \<in> set [rn CHR '' '', rn (CHR 0x09), rn CHR ''\<newline>'', rn (CHR 0x0D), rn CHR ''.'',
                rn CHR '','', rn CHR ''|'', rn CHR '':'', rn CHR '')'', rn CHR ''('', rd, eof])"

text \<open>
  An attempt to lex ended in the error "bad character" for the rune \<open>r\<close>: the next
  state is \<^verbatim>\<open>nil\<close> and the one item sent is that error.
\<close>

definition badCharacter :: "templateLexer \<Rightarrow> rune \<Rightarrow> stateFn option \<times> templateLexer \<Rightarrow> bool" where
  "badCharacter l r res =
     (fst res = None
      \<and> items (snd res) = items l @ [\<lparr>ityp = itemError, ipos = start l,
                                      val = Formatted ''bad character %#U'' [r],
                                      iline = startLine l\<rparr>])"

lemma atTerminator_iff:
  "fst (atTerminator l) = isTerminator (firstRune (rightDelim l)) (fst (peek_l l))"
  using peek_l_fields(2) [of l]
  by (cases "peek_l l") (auto simp: atTerminator_def isTerminator_def isSpace_def isEndOfLine_def)

lemma emit_not_bad: "\<not> badCharacter l r (Some st, emit t l1)"
  by (simp add: badCharacter_def)

lemma errorf_bad:
  "items l1 = items l \<Longrightarrow> start l1 = start l \<Longrightarrow> startLine l1 = startLine l \<Longrightarrow>
   badCharacter l r (errorf ''bad character %#U'' [r] l1)"
  by (simp add: badCharacter_def errorf_def)

lemma lexIdentifier_bad:
  "lexIdentifier u l = Some res \<Longrightarrow>
   badCharacter l (fst (absorbAlphaNumeric u l)) res
     = (\<not> isTerminator (firstRune (rightDelim l)) (fst (absorbAlphaNumeric u l)))"
proof -
  assume res: "lexIdentifier u l = Some res"
  obtain r l1 where ab: "absorbAlphaNumeric u l = (r, l1)" by (cases "absorbAlphaNumeric u l")
  obtain ok l2 where at: "atTerminator l1 = (ok, l2)" by (cases "atTerminator l1")
  note f1 = absorbAlphaNumeric_fields [of u l, unfolded ab, simplified]
  note f2 = atTerminator_fields [of l1, unfolded at, simplified]
  have ok: "ok = isTerminator (firstRune (rightDelim l)) r"
    using atTerminator_iff [of l1] at f1 by simp
  show ?thesis
  proof (cases ok)
    case False
    with res ab at have "res = errorf ''bad character %#U'' [r] l2"
      by (simp add: lexIdentifier_def Let_def)
    with False ok ab show ?thesis using errorf_bad [of l2 l r] f1 f2 by simp
  next
    case True
    with res ab at obtain st t where "res = (Some st, emit t l2)"
      by (auto simp: lexIdentifier_def Let_def split: option.splits list.splits if_splits)
    with True ok ab show ?thesis by (simp add: emit_not_bad)
  qed
qed

lemma lexFieldOrVariable_bad:
  "badCharacter l (fst (absorbAlphaNumeric u (snd (atTerminator l)))) (lexFieldOrVariable u l t)
     = (\<not> isTerminator (firstRune (rightDelim l)) (fst (peek_l l))
        \<and> \<not> isTerminator (firstRune (rightDelim l)) (fst (absorbAlphaNumeric u (snd (atTerminator l)))))"
proof -
  obtain ok l1 where at: "atTerminator l = (ok, l1)" by (cases "atTerminator l")
  obtain r l2 where ab: "absorbAlphaNumeric u l1 = (r, l2)" by (cases "absorbAlphaNumeric u l1")
  obtain ok2 l3 where at2: "atTerminator l2 = (ok2, l3)" by (cases "atTerminator l2")
  note f0 = atTerminator_fields [of l, unfolded at, simplified]
  note f1 = absorbAlphaNumeric_fields [of u l1, unfolded ab, simplified]
  note f2 = atTerminator_fields [of l2, unfolded at2, simplified]
  have ok: "ok = isTerminator (firstRune (rightDelim l)) (fst (peek_l l))"
    using atTerminator_iff [of l] at by simp
  have ok2: "ok2 = isTerminator (firstRune (rightDelim l)) r"
    using atTerminator_iff [of l2] at2 f1 f0 by simp
  show ?thesis
  proof (cases ok)
    case True
    with at ok show ?thesis by (simp add: lexFieldOrVariable_def emit_not_bad)
  next
    case nok: False
    show ?thesis
    proof (cases ok2)
      case True
      with nok at ab at2 ok ok2 show ?thesis by (simp add: lexFieldOrVariable_def emit_not_bad)
    next
      case False
      have "badCharacter l r (errorf ''bad character %#U'' [r] l3)"
        using errorf_bad [of l3 l r] f0 f1 f2 by simp
      with False nok at ab at2 ok ok2 show ?thesis by (simp add: lexFieldOrVariable_def)
    qed
  qed
qed

section \<open>The template sub-parser (parser_template.go)\<close>

subsection \<open>Variables\<close>

text \<open>
  Of \<^verbatim>\<open>templateContext\<close> the model keeps what \<^verbatim>\<open>useVar\<close>, \<^verbatim>\<open>popVars\<close> and
  \<^verbatim>\<open>errorf\<close> read and write: the names, the line of \<^verbatim>\<open>t.token[0]\<close> and the
  variable stack \<^verbatim>\<open>vars\<close> (a nil slice is the empty list).
\<close>

record templateContext =
  name :: "rune list"
  parseName :: "rune list"
  toplevel :: bool
  token0_line :: int
  vars :: "rune list list"

text \<open>
  \<^verbatim>\<open>errorf\<close> panics with an error that \<^verbatim>\<open>recover\<close> turns into the result of
  \<^verbatim>\<open>Parse\<close>. The error keeps the parse name, the line, the format and its arguments.
  \<open>IndexOutOfRange\<close> is the run-time panic of an index expression.
\<close>

datatype templateError =
    TemplateErrorf "rune list" int string "rune list list"
  | IndexOutOfRange

definition t_errorf :: "templateContext \<Rightarrow> string \<Rightarrow> rune list list \<Rightarrow> templateError" where
  "t_errorf t format args = TemplateErrorf (parseName t) (token0_line t) format args"

text \<open>\<^verbatim>\<open>strings.Split(s, ".")\<close>, which \<^verbatim>\<open>ast.Variable\<close> calls.\<close>

fun strings_Split :: "rune list \<Rightarrow> rune \<Rightarrow> rune list list" where
  "strings_Split [] sep = [[]]"
| "strings_Split (c # cs) sep =
     (if c = sep then [] # strings_Split cs sep
      else (case strings_Split cs sep of
              [] \<Rightarrow> [[c]]
            | p # ps \<Rightarrow> (c # p) # ps))"

record VariableNode =
  Ident :: "rune list list"

definition ast_Variable :: "rune list \<Rightarrow> VariableNode" where
  "ast_Variable ident = \<lparr>Ident = strings_Split ident (rn CHR ''.'')\<rparr>"

text \<open>
  \<^verbatim>\<open>startParse\<close> on the modelled fields; the statement
  \<^verbatim>\<open>t.vars = append(t.vars, v.val)\<close> of \<^verbatim>\<open>pipeline\<close>, which declares a variable;
  and \<^verbatim>\<open>popVars\<close>, which \<^verbatim>\<open>parseControl\<close> defers with the length of
  \<^verbatim>\<open>t.vars\<close> at its entry.
\<close>

definition startParse :: "templateContext \<Rightarrow> templateContext" where
  "startParse t = t\<lparr>vars := [runes ''$'']\<rparr>"

definition pipeline_declare :: "rune list \<Rightarrow> templateContext \<Rightarrow> templateContext" where
  "pipeline_declare v t = t\<lparr>vars := vars t @ [v]\<rparr>"

definition popVars :: "nat \<Rightarrow> templateContext \<Rightarrow> templateContext" where
  "popVars n t = t\<lparr>vars := take n (vars t)\<rparr>"

text \<open>The \<^verbatim>\<open>range\<close> loop of \<^verbatim>\<open>useVar\<close>: is one of the names \<^verbatim>\<open>v.Ident[0]\<close>?\<close>

primrec useVar_range :: "rune list list \<Rightarrow> VariableNode \<Rightarrow> (templateError + bool)" where
  "useVar_range [] v = Inr False"
| "useVar_range (varName # rest) v =
     (case Ident v of
        [] \<Rightarrow> Inl IndexOutOfRange
      | i0 # is \<Rightarrow> if varName = i0 then Inr True else useVar_range rest v)"

definition useVar :: "templateContext \<Rightarrow> nat \<Rightarrow> rune list \<Rightarrow> templateError + VariableNode" where
  "useVar t p nm =
     (let v = ast_Variable nm
      in case useVar_range (vars t) v of
           Inl e \<Rightarrow> Inl e
         | Inr True \<Rightarrow> Inr v
         | Inr False \<Rightarrow>
             (case Ident v of
                [] \<Rightarrow> Inl IndexOutOfRange
              | i0 # is \<Rightarrow> Inl (t_errorf t ''undefined variable %q'' [i0])))"

subsection \<open>parseTemplate\<close>






text \<open>
  \<^verbatim>\<open>newTemplateContext\<close>, with the parse name that \<^verbatim>\<open>Parse\<close> sets first.
\<close>

definition newTemplateContext :: "rune list \<Rightarrow> bool \<Rightarrow> templateContext" where
  "newTemplateContext nm isTop =
     \<lparr>name = nm, parseName = nm, toplevel = isTop, token0_line = 0, vars = []\<rparr>"


subsection \<open>Facts about the variable stack\<close>

lemma strings_Split_not_Nil: "strings_Split s sep \<noteq> []"
  by (induction s) (auto split: list.splits)

lemma useVar_range_iff:
  "Ident v = i0 # rest \<Longrightarrow> useVar_range vs v = Inr (i0 \<in> set vs)"
  by (induction vs) auto

lemma vars_fold_declare: "vars (fold pipeline_declare ds t) = vars t @ ds"
  by (induction ds arbitrary: t) (simp_all add: pipeline_declare_def)

section \<open>Claims about the scanner\<close>

text \<open>
  C6. The claim: a block-scalar header whose option text is not valid makes scanning
  produce a scan error that the caller of \<^verbatim>\<open>Scan\<close> receives. On the input
  \<^verbatim>\<open>"|x\n"\<close> the header scan does produce the error "invalid literal header", but
  \<^verbatim>\<open>scan\<close> returns at the statement under its TODO comment and \<^verbatim>\<open>Scan\<close> hands
  back no token and the error \<^verbatim>\<open>nil\<close>; the whole tokenization then ends without an
  error, with \<^verbatim>\<open>x\<close> as a plain scalar.
\<close>

theorem invalid_header_error_not_surfaced:
  "fst (scanScalarHeader (Init (runes ''|x\<newline>'') zeroScanner,
                          newContext createContext (runes ''|x\<newline>'')))
     = (1, Some (ErrorString ''invalid literal header''))
   \<and> map_option fst (Scan createContext (Init (runes ''|x\<newline>'') zeroScanner)) = Some ([], None)
   \<and> map_option (map Value) (Tokenize (runes ''|x\<newline>'')) = Some [runes ''x'']"
  by code_simp

text \<open>
  C9. Tokenization terminates on every input. Whatever the pool hands out and whatever
  state the scanner is in, a call of \<^verbatim>\<open>Scan\<close> returns (it does not panic, and the
  loops inside \<^verbatim>\<open>scan\<close> are total functions here): at the end of the source it
  returns the sentinel \<^verbatim>\<open>io.EOF\<close> and leaves the scanner as it is, otherwise it
  moves the source position forward by at least one rune and leaves the source alone.
  So the loop of \<^verbatim>\<open>Tokenize\<close> over \<^verbatim>\<open>Scan\<close> returns a token list for every input.
\<close>

theorem tokenization_terminates:
  "(\<exists>toks err s' released.
      Scan pooled s = Some ((toks, err), s', released)
      \<and> (if length (source s) \<le> sourcePos s
         then err = Some EOF \<and> toks = [] \<and> s' = s
         else err = None \<and> sourcePos s < sourcePos s' \<and> source s' = source s))
   \<and> Tokenize_loop pooled s acc \<noteq> None
   \<and> Tokenize text \<noteq> None"
proof -
  obtain toks err s' released where sc: "Scan pooled s = Some ((toks, err), s', released)"
    using Scan_returns [of pooled s] by (cases "Scan pooled s") auto
  have scan_part: "\<exists>toks err s' released.
      Scan pooled s = Some ((toks, err), s', released)
      \<and> (if length (source s) \<le> sourcePos s
         then err = Some EOF \<and> toks = [] \<and> s' = s
         else err = None \<and> sourcePos s < sourcePos s' \<and> source s' = source s)"
  proof (cases "length (source s) \<le> sourcePos s")
    case True
    with sc show ?thesis by (auto simp: Scan_def)
  next
    case False
    with sc have e: "err = None"
      by (auto simp: Scan_def Let_def split: option.splits)
    then have "err \<noteq> Some EOF" by simp
    from Scan_progress [OF sc this] sc False e show ?thesis by simp
  qed
  have "Tokenize text \<noteq> None"
    using Tokenize_loop_returns [of createContext "Init text zeroScanner" "[]"]
    by (simp add: Tokenize_def Tokenize_from_def Tokenize_with_def)
  with scan_part Tokenize_loop_returns [of pooled s acc] show ?thesis by blast
qed

theorem tokenization_terminates_witness:
  "map_option (map Value) (Tokenize (runes ''a: b'')) = Some [runes ''a'', runes '':'', runes ''b'']
   \<and> Tokenize (runes ''a: b'') \<noteq> None"
proof -
  have toks: "map_option (map Value) (Tokenize (runes ''a: b''))
                = Some [runes ''a'', runes '':'', runes ''b'']"
    by code_simp
  have "Tokenize (runes ''a: b'') \<noteq> None"
    using tokenization_terminates [of createContext zeroScanner "[]" "runes ''a: b''"] by blast
  with toks show ?thesis by blast
qed

text \<open>
  C5, as amended. An opening \<^verbatim>\<open>{\<close> or \<^verbatim>\<open>[\<close> token adds one to the matching
  nesting counter, a closing \<^verbatim>\<open>}\<close> or \<^verbatim>\<open>]\<close> token takes one away, and nothing
  else changes the counters: after any \<^verbatim>\<open>Scan\<close>, and after a whole tokenization on
  any scanner value, each counter is its value before plus the number of opening tokens
  minus the number of closing tokens emitted (\<open>mapBalance\<close>, \<open>seqBalance\<close>). The
  counters have no lower bound.
\<close>

theorem flow_counters_follow_tokens:
  "(case Scan pooled s of
      None \<Rightarrow> False
    | Some ((toks, err), s', released) \<Rightarrow>
        startedFlowMapNum s' = startedFlowMapNum s + mapBalance toks
        \<and> startedFlowSequenceNum s' = startedFlowSequenceNum s + seqBalance toks)
   \<and> (case Tokenize_with sv pooled inp of
      None \<Rightarrow> False
    | Some (toks, s', released) \<Rightarrow>
        startedFlowMapNum s' = startedFlowMapNum sv + mapBalance toks
        \<and> startedFlowSequenceNum s' = startedFlowSequenceNum sv + seqBalance toks)"
proof -
  obtain toks err s' released where sc: "Scan pooled s = Some ((toks, err), s', released)"
    using Scan_returns [of pooled s] by (cases "Scan pooled s") auto
  obtain ts s1 rel where tk: "Tokenize_with sv pooled inp = Some (ts, s1, rel)"
    using Tokenize_loop_returns [of pooled "Init inp sv" "[]"]
    by (cases "Tokenize_with sv pooled inp") (auto simp: Tokenize_with_def)
  from Tokenize_loop_counters [of pooled "Init inp sv" "[]" ts s1 rel] tk
  have "startedFlowMapNum s1 = startedFlowMapNum sv + mapBalance ts
        \<and> startedFlowSequenceNum s1 = startedFlowSequenceNum sv + seqBalance ts"
    by (simp add: Tokenize_with_def)
  with sc tk Scan_counters [OF sc] show ?thesis by simp
qed

theorem flow_counters_follow_tokens_witness:
  "(case Scan createContext (Init (runes ''}'') zeroScanner) of
      None \<Rightarrow> False
    | Some ((toks, err), s', released) \<Rightarrow>
        startedFlowMapNum s' = startedFlowMapNum (Init (runes ''}'') zeroScanner) + mapBalance toks
        \<and> startedFlowSequenceNum s' =
            startedFlowSequenceNum (Init (runes ''}'') zeroScanner) + seqBalance toks)
   \<and> (case Tokenize_with zeroScanner createContext (runes ''[{}'') of
      None \<Rightarrow> False
    | Some (toks, s', released) \<Rightarrow>
        startedFlowMapNum s' = startedFlowMapNum zeroScanner + mapBalance toks
        \<and> startedFlowSequenceNum s' = startedFlowSequenceNum zeroScanner + seqBalance toks)
   \<and> map_option (mapBalance \<circ> fst) (Tokenize_with zeroScanner createContext (runes ''[{}'')) = Some 0
   \<and> map_option (seqBalance \<circ> fst) (Tokenize_with zeroScanner createContext (runes ''[{}'')) = Some 1"
proof -
  have "map_option (mapBalance \<circ> fst) (Tokenize_with zeroScanner createContext (runes ''[{}'')) = Some 0
   \<and> map_option (seqBalance \<circ> fst) (Tokenize_with zeroScanner createContext (runes ''[{}'')) = Some 1"
    by code_simp
  with flow_counters_follow_tokens [where pooled = createContext
      and s = "Init (runes ''}'') zeroScanner" and sv = zeroScanner and inp = "runes ''[{}''"]
  show ?thesis by blast
qed

text \<open>
  C5, the counterexample. The claim says that the counters are never negative. On the
  input \<^verbatim>\<open>"}"\<close> the first \<^verbatim>\<open>Scan\<close> emits a MappingEnd token, returns no error and
  leaves \<^verbatim>\<open>startedFlowMapNum\<close> at -1.
\<close>

theorem unmatched_closer_makes_counter_negative:
  "map_option (startedFlowMapNum \<circ> fst \<circ> snd) (Scan createContext (Init (runes ''}'') zeroScanner))
     = Some (- 1)
   \<and> map_option (map Type \<circ> fst \<circ> fst) (Scan createContext (Init (runes ''}'') zeroScanner))
     = Some [MappingEndType]
   \<and> map_option (snd \<circ> fst) (Scan createContext (Init (runes ''}'') zeroScanner)) = Some None"
  by code_simp

text \<open>
  C4, as amended. When \<^verbatim>\<open>scanTemplate\<close> is entered at a \<^verbatim>\<open>{{\<close> and emits a
  Template token, the token's value is the source text from the opening \<^verbatim>\<open>{{\<close>
  through the closing \<^verbatim>\<open>}}\<close>, both delimiters included: it is the slice of the
  source between the index at entry and the index at exit, it begins with \<^verbatim>\<open>{{\<close> and
  ends with \<^verbatim>\<open>}}\<close>. The origin is the pending origin buffer followed by that same
  text, so the origin covers the delimiters too.
\<close>

theorem template_value_includes_delimiters:
  assumes "csize ctx = length (src ctx)" and "repeatNum ctx (rn CHR ''{'') = 2"
  shows "case scanTemplate s ctx of
           (None, ctx') \<Rightarrow> True
         | (Some tk, ctx') \<Rightarrow>
             Type tk = TemplateType
             \<and> Value tk = take (idx ctx' - idx ctx) (drop (idx ctx) (src ctx))
             \<and> Origin tk = obuf ctx @ Value tk
             \<and> 4 \<le> length (Value tk)
             \<and> take 2 (Value tk) = runes ''{{''
             \<and> drop (length (Value tk) - 2) (Value tk) = runes ''}}''"
proof (cases "scanTemplate s ctx")
  case (Pair r ctx')
  show ?thesis
  proof (cases r)
    case None
    with Pair show ?thesis by simp
  next
    case (Some tk)
    with Pair have "scanTemplate s ctx = (Some tk, ctx')" by simp
    from scanTemplate_value [OF assms this] Pair Some show ?thesis by simp
  qed
qed

theorem template_value_includes_delimiters_witness:
  "csize (newContext createContext (runes ''{{a}} b'')) = length (src (newContext createContext (runes ''{{a}} b'')))
   \<and> repeatNum (newContext createContext (runes ''{{a}} b'')) (rn CHR ''{'') = 2
   \<and> (case scanTemplate (Init (runes ''{{a}} b'') zeroScanner) (newContext createContext (runes ''{{a}} b'')) of
           (None, ctx') \<Rightarrow> True
         | (Some tk, ctx') \<Rightarrow>
             Type tk = TemplateType
             \<and> Value tk = take (idx ctx' - idx (newContext createContext (runes ''{{a}} b'')))
                             (drop (idx (newContext createContext (runes ''{{a}} b'')))
                                (src (newContext createContext (runes ''{{a}} b''))))
             \<and> Origin tk = obuf (newContext createContext (runes ''{{a}} b'')) @ Value tk
             \<and> 4 \<le> length (Value tk)
             \<and> take 2 (Value tk) = runes ''{{''
             \<and> drop (length (Value tk) - 2) (Value tk) = runes ''}}'')
   \<and> map_option Value (fst (scanTemplate (Init (runes ''{{a}} b'') zeroScanner)
         (newContext createContext (runes ''{{a}} b'')))) = Some (runes ''{{a}}'')"
proof -
  have h1: "csize (newContext createContext (runes ''{{a}} b''))
              = length (src (newContext createContext (runes ''{{a}} b'')))"
    by code_simp
  have h2: "repeatNum (newContext createContext (runes ''{{a}} b'')) (rn CHR ''{'') = 2"
    by code_simp
  have v: "map_option Value (fst (scanTemplate (Init (runes ''{{a}} b'') zeroScanner)
         (newContext createContext (runes ''{{a}} b'')))) = Some (runes ''{{a}}'')"
    by code_simp
  from template_value_includes_delimiters [OF h1 h2, of "Init (runes ''{{a}} b'') zeroScanner"] h1 h2 v
  show ?thesis by blast
qed

text \<open>
  C4, the counterexample. The claim says that the delimiters are excluded from the
  value. Tokenizing \<^verbatim>\<open>"{{a}}"\<close> gives one Template token whose value is
  \<^verbatim>\<open>"{{a}}"\<close>, not \<^verbatim>\<open>"a"\<close>.
\<close>

theorem template_value_counterexample:
  "map_option (map Type) (Tokenize (runes ''{{a}}'')) = Some [TemplateType]
   \<and> map_option (map Value) (Tokenize (runes ''{{a}}'')) = Some [runes ''{{a}}'']
   \<and> map_option (map Value) (Tokenize (runes ''{{a}}'')) \<noteq> Some [runes ''a'']"
  by code_simp

text \<open>
  C2. The claim: \<^verbatim>\<open>Init\<close> resets the scanner fully and scanning does not depend on
  earlier activity or on the reuse of pooled contexts. \<^verbatim>\<open>Init\<close> leaves the nesting
  counters, \<^verbatim>\<open>docStartColumn\<close>, \<^verbatim>\<open>isAnchor\<close> and \<^verbatim>\<open>indentState\<close> as they are,
  and \<^verbatim>\<open>Context.reset\<close> leaves the block-scalar flags and the chomping indicator.
  A new scanner reads \<^verbatim>\<open>"a,b"\<close> as one scalar; a scanner that has scanned
  \<^verbatim>\<open>"["\<close> before and is initialised again reads it as three tokens. After the
  first \<^verbatim>\<open>Scan\<close> of \<^verbatim>\<open>"|\n"\<close> the released context is still in literal mode: the
  next \<^verbatim>\<open>Scan\<close> emits a String token when the pool hands that context back, and
  nothing when the pool hands out a new one.
\<close>

theorem Init_and_pool_keep_state:
  "map_option (map Value \<circ> fst) (Tokenize_with zeroScanner createContext (runes ''a,b''))
     = Some [runes ''a,b'']
   \<and> (case Tokenize_with zeroScanner createContext (runes ''['') of
        None \<Rightarrow> False
      | Some (toks, s1, pool1) \<Rightarrow>
          startedFlowSequenceNum (Init (runes ''a,b'') s1) = 1
          \<and> map_option (map Value \<circ> fst) (Tokenize_with s1 createContext (runes ''a,b''))
              = Some [runes ''a'', runes '','', runes ''b''])
   \<and> (case Scan createContext (Init (runes ''|\<newline>'') zeroScanner) of
        None \<Rightarrow> False
      | Some (r1, s1, released) \<Rightarrow>
          isLiteral released
          \<and> map_option (map Value \<circ> fst \<circ> fst) (Scan released s1) = Some [runes ''\<newline>'']
          \<and> map_option (map Value \<circ> fst \<circ> fst) (Scan createContext s1) = Some [])"
  by code_simp







section \<open>Claims about the template lexer\<close>

text \<open>
  C7, as amended. In the template lexer, right after an identifier, a field or a
  variable, lexing fails with the error item "bad character" if and only if the next
  rune is not one of: space, tab, newline, carriage return, \<^verbatim>\<open>.\<close>, \<^verbatim>\<open>,\<close>,
  \<^verbatim>\<open>|\<close>, \<^verbatim>\<open>:\<close>, \<^verbatim>\<open>)\<close>, \<^verbatim>\<open>(\<close>, the first rune of the right delimiter, or
  the end of the input. For a field or a variable the test is made twice: right after
  the \<^verbatim>\<open>.\<close> or \<^verbatim>\<open>$\<close>, where a terminator ends the item at once, and after the
  run of letters and digits that follows. The rune that ends the run is the next rune
  of the input.
\<close>

theorem bad_character_iff_not_terminator:
  "fst (atTerminator l) = isTerminator (firstRune (rightDelim l)) (fst (peek_l l))
   \<and> fst (peek_l (snd (absorbAlphaNumeric u l))) = fst (absorbAlphaNumeric u l)
   \<and> (case lexIdentifier u l of
        None \<Rightarrow> True
      | Some res \<Rightarrow>
          badCharacter l (fst (absorbAlphaNumeric u l)) res
            = (\<not> isTerminator (firstRune (rightDelim l)) (fst (absorbAlphaNumeric u l))))
   \<and> badCharacter l (fst (absorbAlphaNumeric u (snd (atTerminator l)))) (lexField u l)
        = (\<not> isTerminator (firstRune (rightDelim l)) (fst (peek_l l))
           \<and> \<not> isTerminator (firstRune (rightDelim l))
                 (fst (absorbAlphaNumeric u (snd (atTerminator l)))))
   \<and> badCharacter l (fst (absorbAlphaNumeric u (snd (atTerminator (snd (atTerminator l))))))
          (lexVariable u l)
        = (\<not> isTerminator (firstRune (rightDelim l)) (fst (peek_l l))
           \<and> \<not> isTerminator (firstRune (rightDelim l))
                 (fst (absorbAlphaNumeric u (snd (atTerminator (snd (atTerminator l)))))))"
proof -
  have id: "case lexIdentifier u l of
        None \<Rightarrow> True
      | Some res \<Rightarrow>
          badCharacter l (fst (absorbAlphaNumeric u l)) res
            = (\<not> isTerminator (firstRune (rightDelim l)) (fst (absorbAlphaNumeric u l)))"
    using lexIdentifier_bad [of u l] by (cases "lexIdentifier u l") simp_all
  obtain ok l1 where at: "atTerminator l = (ok, l1)" by (cases "atTerminator l")
  note f0 = atTerminator_fields [of l, unfolded at, simplified]
  have ok: "ok = isTerminator (firstRune (rightDelim l)) (fst (peek_l l))"
    using atTerminator_iff [of l] at by simp
  have pk: "fst (peek_l l1) = fst (peek_l l)" using f0 by (simp add: peek_l_rune)
  have same: "badCharacter l1 r res = badCharacter l r res" for r res
    using f0 by (simp add: badCharacter_def)
  have var: "badCharacter l (fst (absorbAlphaNumeric u (snd (atTerminator l1)))) (lexVariable u l)
        = (\<not> isTerminator (firstRune (rightDelim l)) (fst (peek_l l))
           \<and> \<not> isTerminator (firstRune (rightDelim l))
                 (fst (absorbAlphaNumeric u (snd (atTerminator l1)))))"
  proof (cases ok)
    case True
    with at ok show ?thesis by (simp add: lexVariable_def emit_not_bad)
  next
    case False
    with at have "lexVariable u l = lexFieldOrVariable u l1 itemVariable"
      by (simp add: lexVariable_def)
    with lexFieldOrVariable_bad [of l1 u itemVariable] same pk f0 show ?thesis by simp
  qed
  from id var at atTerminator_iff [of l] absorbAlphaNumeric_fields [of u l]
    lexFieldOrVariable_bad [of l u itemField]
  show ?thesis by (simp add: lexField_def)
qed

theorem bad_character_iff_not_terminator_witness:
  "map_option (fst) (lexIdentifier asciiTables (lex (runes ''x+1}}'') [] [])) = Some None
   \<and> map_option (map val \<circ> items \<circ> snd) (lexIdentifier asciiTables (lex (runes ''x+1}}'') [] []))
       = Some [Formatted ''bad character %#U'' [rn CHR ''+'']]
   \<and> fst (absorbAlphaNumeric asciiTables (lex (runes ''x+1}}'') [] [])) = rn CHR ''+''
   \<and> \<not> isTerminator (firstRune (rightDelim (lex (runes ''x+1}}'') [] []))) (rn CHR ''+'')
   \<and> fst (atTerminator (lex (runes ''x+1}}'') [] []))
       = isTerminator (firstRune (rightDelim (lex (runes ''x+1}}'') [] [])))
           (fst (peek_l (lex (runes ''x+1}}'') [] [])))"
proof -
  have "map_option (fst) (lexIdentifier asciiTables (lex (runes ''x+1}}'') [] [])) = Some None
   \<and> map_option (map val \<circ> items \<circ> snd) (lexIdentifier asciiTables (lex (runes ''x+1}}'') [] []))
       = Some [Formatted ''bad character %#U'' [rn CHR ''+'']]
   \<and> fst (absorbAlphaNumeric asciiTables (lex (runes ''x+1}}'') [] [])) = rn CHR ''+''
   \<and> \<not> isTerminator (firstRune (rightDelim (lex (runes ''x+1}}'') [] []))) (rn CHR ''+'')"
    by code_simp
  with bad_character_iff_not_terminator [of "lex (runes ''x+1}}'') [] []" asciiTables]
  show ?thesis by blast
qed

text \<open>
  C7, the counterexample. The claim's list has the space and the newline but not the
  tab. In \<^verbatim>\<open>x\<close>, tab, \<^verbatim>\<open>}}\<close> the rune after the identifier is a tab, which is not
  in the claim's list, and the lexer emits the identifier and goes on without an error.
\<close>

theorem tab_after_identifier_is_accepted:
  "fst (absorbAlphaNumeric asciiTables (lex (runes (''x'' @ [CHR 0x09] @ ''}}'')) [] []))
     = rn (CHR 0x09)
   \<and> rn (CHR 0x09) \<notin> set [rn CHR '' '', rn CHR ''\<newline>'', rn CHR ''.'', rn CHR '','', rn CHR ''|'',
          rn CHR '':'', rn CHR '')'', rn CHR ''('',
          firstRune (rightDelim (lex (runes (''x'' @ [CHR 0x09] @ ''}}'')) [] [])), eof]
   \<and> map_option fst (lexIdentifier asciiTables (lex (runes (''x'' @ [CHR 0x09] @ ''}}'')) [] []))
       = Some (Some St_lexInsideAction)
   \<and> map_option (map ityp \<circ> items \<circ> snd)
         (lexIdentifier asciiTables (lex (runes (''x'' @ [CHR 0x09] @ ''}}'')) [] []))
       = Some [itemIdentifier]"
  by code_simp

section \<open>Claims about the template sub-parser\<close>

text \<open>
  C8, as amended. A variable term parses successfully if and only if its name (the part
  before the first dot) is on the variable stack \<^verbatim>\<open>t.vars\<close> at that moment;
  otherwise it fails with the error "undefined variable". The stack is \<^verbatim>\<open>$\<close> alone
  when a parse starts and a declaration pushes a name, so \<^verbatim>\<open>$\<close> is bound whatever
  has been declared; when a control action ends, the stack is cut back to the length it
  had at its entry, and the variables declared inside it are no longer bound.
\<close>

theorem variable_bound_iff_on_stack:
  "useVar t p nm =
     (if hd (Ident (ast_Variable nm)) \<in> set (vars t) then Inr (ast_Variable nm)
      else Inl (t_errorf t ''undefined variable %q'' [hd (Ident (ast_Variable nm))]))
   \<and> vars (startParse t) = [runes ''$'']
   \<and> vars (pipeline_declare v t) = vars t @ [v]
   \<and> useVar (fold pipeline_declare ds (startParse t)) p (runes ''$'') = Inr (ast_Variable (runes ''$''))
   \<and> vars (popVars (length (vars t)) (fold pipeline_declare ds t)) = vars t"
proof -
  obtain i0 rest where id: "Ident (ast_Variable nm) = i0 # rest"
    using strings_Split_not_Nil [of nm "rn CHR ''.''"]
    by (cases "Ident (ast_Variable nm)") (auto simp: ast_Variable_def)
  have a: "useVar t p nm =
     (if hd (Ident (ast_Variable nm)) \<in> set (vars t) then Inr (ast_Variable nm)
      else Inl (t_errorf t ''undefined variable %q'' [hd (Ident (ast_Variable nm))]))"
    using useVar_range_iff [OF id, of "vars t"] id by (simp add: useVar_def Let_def)
  have d0: "Ident (ast_Variable (runes ''$'')) = [runes ''$'']"
    by (simp add: ast_Variable_def)
  have d: "useVar (fold pipeline_declare ds (startParse t)) p (runes ''$'')
             = Inr (ast_Variable (runes ''$''))"
    using useVar_range_iff [OF d0, of "vars (fold pipeline_declare ds (startParse t))"] d0
    by (simp add: useVar_def Let_def vars_fold_declare startParse_def)
  show ?thesis
    using a d by (simp add: startParse_def pipeline_declare_def popVars_def vars_fold_declare)
qed

theorem variable_bound_iff_on_stack_witness:
  "useVar (pipeline_declare (runes ''$x'') (startParse (newTemplateContext (runes ''template'') True)))
       0 (runes ''$x.Name'')
     = Inr \<lparr>Ident = [runes ''$x'', runes ''Name'']\<rparr>
   \<and> useVar (pipeline_declare (runes ''$x'') (startParse (newTemplateContext (runes ''template'') True)))
       0 (runes ''$x.Name'')
     = (if hd (Ident (ast_Variable (runes ''$x.Name'')))
            \<in> set (vars (pipeline_declare (runes ''$x'')
                  (startParse (newTemplateContext (runes ''template'') True))))
        then Inr (ast_Variable (runes ''$x.Name''))
        else Inl (t_errorf (pipeline_declare (runes ''$x'')
                     (startParse (newTemplateContext (runes ''template'') True)))
                    ''undefined variable %q'' [hd (Ident (ast_Variable (runes ''$x.Name'')))]))"
proof -
  have "useVar (pipeline_declare (runes ''$x'') (startParse (newTemplateContext (runes ''template'') True)))
       0 (runes ''$x.Name'')
     = Inr \<lparr>Ident = [runes ''$x'', runes ''Name'']\<rparr>"
    by code_simp
  with variable_bound_iff_on_stack [where t = "pipeline_declare (runes ''$x'')
      (startParse (newTemplateContext (runes ''template'') True))" and p = 0 and nm = "runes ''$x.Name''"]
  show ?thesis by blast
qed

text \<open>
  C8, the counterexample. The claim says that a variable declared earlier in the same
  template parse can be referenced. In \<^verbatim>\<open>{{with $x := 1}}{{end}}{{$x}}\<close> the
  variable is declared inside the \<^verbatim>\<open>with\<close> action: \<^verbatim>\<open>parseControl\<close> defers
  \<^verbatim>\<open>popVars\<close> with the length 1 of the stack at entry, \<^verbatim>\<open>pipeline\<close> pushes
  \<^verbatim>\<open>$x\<close>, the \<^verbatim>\<open>end\<close> pops it, and the later reference is an undefined variable.
\<close>

theorem declared_variable_undefined_after_end:
  "useVar (popVars (length (vars (startParse (newTemplateContext (runes ''template'') True))))
             (pipeline_declare (runes ''$x'')
                (startParse (newTemplateContext (runes ''template'') True))))
          0 (runes ''$x'')
     = Inl (TemplateErrorf (runes ''template'') 0 ''undefined variable %q'' [runes ''$x''])"
  by code_simp



end
